theory Spec2Isabelle
  imports Main "HOL-Library.Word" "HOL-Library.AList"
begin

unbundle bit_operations_syntax

section \<open>Values, objects and messages of rpc\_socket.js\<close>

text \<open>
  Functions are closures: an opaque host function (its label is recorded when it runs);
  the \<open>$free\<close> closure that \<open>make$free\<close> installs, which captures the id and the
  previous \<open>$free\<close>; the \<open>$free\<close> arrow function of a proxy; the closure
  \<open>RpcProxy\<close> makes for a method name. \<open>NotCallable\<close> occurs as the previous
  \<open>$free\<close> only: it stands for a truthy value that is not a function, which
  \<open>make$free\<close> captures all the same and whose call throws a TypeError to the host.
\<close>

type_synonym addr = nat

datatype fn =
    UserFn nat
  | StubFree int "fn option"
  | ProxyFree int
  | ProxyMethod string
  | NotCallable

text \<open>
  \<open>Obj a\<close> is an object of the host, \<open>Prx p\<close> a proxy that \<open>RpcProxy\<close> built,
  both named by their address, so that identity is equality of addresses. \<open>Ref n\<close> is
  the object literal \<open>{$rpcId: n}\<close>, the reference token of the wire. Numbers are the
  integers.
\<close>

datatype val =
    Undefined
  | Null
  | Bool bool
  | Num int
  | Str string
  | Fn fn
  | Arr "val list"
  | Obj addr
  | Prx addr
  | Ref int

text \<open>
  An object of the host is its data properties: every name holds a value,
  \<open>undefined\<close> when the property is absent. The names the engine reads,
  \<open>$rpcId\<close>, \<open>$rpcMethods\<close> and \<open>$free\<close>, are properties like the others.
\<close>

type_synonym jsobj = "string \<Rightarrow> val"

definition plain_object :: jsobj where
  "plain_object = (\<lambda>name. Undefined)"

fun truthy :: "val \<Rightarrow> bool" where
  "truthy Undefined = False"
| "truthy Null = False"
| "truthy (Bool b) = b"
| "truthy (Num n) = (n \<noteq> 0)"
| "truthy (Str s) = (s \<noteq> [])"
| "truthy v = True"

text \<open>
  Three readings of an object of the host, for the statements below: its allow-list,
  when \<open>$rpcMethods\<close> is an array of strings; its \<open>$rpcId\<close>, when that is a number;
  the previous hook \<open>make$free\<close> finds in \<open>$free\<close>.
\<close>

fun strings_of :: "val list \<Rightarrow> string list option" where
  "strings_of [] = Some []"
| "strings_of (Str m # vs) =
     (case strings_of vs of None \<Rightarrow> None | Some ms \<Rightarrow> Some (m # ms))"
| "strings_of (v # vs) = None"

definition rpcMethods :: "jsobj \<Rightarrow> string list option" where
  "rpcMethods ob = (case ob ''$rpcMethods'' of Arr vs \<Rightarrow> strings_of vs | _ \<Rightarrow> None)"

definition rpcId :: "jsobj \<Rightarrow> int option" where
  "rpcId ob = (case ob ''$rpcId'' of Num i \<Rightarrow> Some i | _ \<Rightarrow> None)"

definition free :: "jsobj \<Rightarrow> fn option" where
  "free ob =
     (case ob ''$free'' of
        Fn f \<Rightarrow> Some f
      | v \<Rightarrow> if truthy v then Some NotCallable else None)"

text \<open>
  A proxy is what \<open>RpcProxy\<close> built from an id and a list of method names. For a
  name \<open>get X\<close> in the list the proxy has the accessor pair \<open>X\<close>; for any other
  name it has that name as a property holding a closure, unless the name is an accessor
  already: assigning to an accessor calls its setter. So what a property of the proxy
  is follows from the list: \<open>$rpcId\<close> is the id unless the list names \<open>$rpcId\<close>
  (a closure then) or \<open>get $rpcId\<close> (an accessor), and likewise \<open>_socket\<close>.
\<close>

record proxy =
  pxId :: int
  pxMethods :: "string list"

datatype idslot = IdValue int | IdMethod | IdAccessor

datatype sockslot = SockValue | SockMethod | SockAccessor

definition rpcId_slot :: "int \<Rightarrow> string list \<Rightarrow> idslot" where
  "rpcId_slot i ms =
     (if ''get $rpcId'' \<in> set ms then IdAccessor
      else if ''$rpcId'' \<in> set ms then IdMethod
      else IdValue i)"

definition socket_slot :: "string list \<Rightarrow> sockslot" where
  "socket_slot ms =
     (if ''get _socket'' \<in> set ms then SockAccessor
      else if ''_socket'' \<in> set ms then SockMethod
      else SockValue)"

datatype error =
    Error string
  | TypeError string
  | RangeError string
  | SyntaxError string val val

fun error_name :: "error \<Rightarrow> string" where
  "error_name (Error m) = ''Error''"
| "error_name (TypeError m) = ''TypeError''"
| "error_name (RangeError m) = ''RangeError''"
| "error_name (SyntaxError m f l) = ''SyntaxError''"

fun error_message :: "error \<Rightarrow> string" where
  "error_message (Error m) = m"
| "error_message (TypeError m) = m"
| "error_message (RangeError m) = m"
| "error_message (SyntaxError m f l) = m"

text \<open>\<open>String(error)\<close>: the name alone when the message is empty.\<close>

definition error_to_string :: "error \<Rightarrow> string" where
  "error_to_string e =
     (if error_message e = [] then error_name e
      else error_name e @ '': '' @ error_message e)"

text \<open>
  The getter of an accessor \<open>$rpcId\<close> reads \<open>this.$rpcId\<close>, that is itself, and
  the getter of \<open>_socket\<close> reads \<open>this._socket\<close>: the recursion ends when the
  stack is full.
\<close>

definition stack_overflow :: error where
  "stack_overflow = RangeError ''Maximum call stack size exceeded''"

text \<open>The \<open>id\<close> field of an inbound message: absent, \<open>null\<close> or a number.\<close>

datatype mid = IdUndefined | IdNull | IdNum int

text \<open>Messages this Endpoint writes to the channel.\<close>

datatype msg =
    NewObjectMsg int val
  | CallMsg int val string "val list"
  | ReplyMsg int val
  | ReplyError int string
  | ReplySyntaxError int val val string

text \<open>Messages the channel delivers, by their \<open>control\<close> field.\<close>

datatype inmsg =
    InNewObject int "string list"
  | InCall mid int string val
  | InReply mid val "string option" string val val
  | InOther

datatype event = EvError error | EvEnd | EvClose bool

datatype outcome = Resolved val | Rejected error

text \<open>What \<open>call()\<close> hands back: an exception, or a promise (already rejected, or the
  promise of a fresh deferred).\<close>

datatype future = RejectedPromise error | DeferredPromise nat

datatype call_result = Thrown error | Returned future

record stub =
  srpcId :: int
  sobject :: addr
  smethods :: val

text \<open>
  \<open>_handleCall\<close> runs nothing at once: \<open>Q.try\<close> defers the body, and \<open>then\<close> and
  \<open>catch\<close> defer their handlers, each to a later turn of the queue of Q.
\<close>

datatype task =
    CallBody mid int string val
  | ThenReply mid val
  | CatchReply mid error

text \<open>
  The Endpoint (\<open>RpcSocket\<close>) with the world it acts on: the objects of the host, the
  proxies, \<open>process.pid\<close>, the queue of Q, and the traces of its effects: the
  messages written to the channel, the promises settled, the events emitted, the host
  functions run.
\<close>

record state =
  heap :: "addr \<Rightarrow> jsobj"
  proxyObjs :: "addr \<rightharpoonup> proxy"
  nextAddr :: addr
  pid :: int
  knownStubs :: "addr \<rightharpoonup> stub"
  knownStubIds :: "int \<rightharpoonup> addr"
  knownProxies :: "int \<rightharpoonup> addr"
  pendingCalls :: "(int \<times> nat) list"
  inCall :: bool
  newObjects :: "msg list"
  callId :: int
  ended :: bool
  stubCnt :: int
  nextDeferred :: nat
  tasks :: "task list"
  written :: "msg list"
  settled :: "(nat \<times> outcome) list"
  emitted :: "event list"
  freeLog :: "nat list"

definition init :: "int \<Rightarrow> (addr \<Rightarrow> jsobj) \<Rightarrow> addr \<Rightarrow> state" where
  "init p h n =
     \<lparr>heap = h, proxyObjs = Map.empty, nextAddr = n, pid = p,
      knownStubs = Map.empty, knownStubIds = Map.empty, knownProxies = Map.empty,
      pendingCalls = [], inCall = False, newObjects = [], callId = 0, ended = False,
      stubCnt = 0, nextDeferred = 0, tasks = [], written = [], settled = [],
      emitted = [], freeLog = []\<rparr>"

section \<open>Numbers and strings\<close>

text \<open>
  \<open>x << n\<close> and \<open>x >> n\<close> of JavaScript work on the 32-bit two's complement of
  \<open>x\<close> and give a signed 32-bit result.
\<close>

definition js_shl :: "int \<Rightarrow> nat \<Rightarrow> int" where
  "js_shl x n = sint (push_bit (n mod 32) (word_of_int x :: 32 word))"

definition js_shr :: "int \<Rightarrow> nat \<Rightarrow> int" where
  "js_shr x n = sint (signed_drop_bit (n mod 32) (word_of_int x :: 32 word))"

definition digit_char :: "nat \<Rightarrow> char" where
  "digit_char d = ''0123456789abcdef'' ! d"

fun digits :: "nat \<Rightarrow> nat \<Rightarrow> string" where
  "digits b n =
     (if b < 2 \<or> n < b then [digit_char n]
      else digits b (n div b) @ [digit_char (n mod b)])"

declare digits.simps [simp del]

text \<open>\<open>Number.prototype.toString(radix)\<close> on an integer.\<close>

definition num_to_string :: "nat \<Rightarrow> int \<Rightarrow> string" where
  "num_to_string b x =
     (if x < 0 then CHR ''-'' # digits b (nat (- x)) else digits b (nat x))"

text \<open>
  The text of a value in an error message: \<open>String(v)\<close>, with an array as the join of
  its elements. The text of a function, and of an object with a \<open>toString\<close> of its
  own, belongs to the host: every function reads \<open>function\<close> here, every object
  \<open>[object Object]\<close>.
\<close>

fun js_string :: "val \<Rightarrow> string"
  and js_join :: "val list \<Rightarrow> string" where
  "js_string Undefined = ''undefined''"
| "js_string Null = ''null''"
| "js_string (Bool b) = (if b then ''true'' else ''false'')"
| "js_string (Num n) = num_to_string 10 n"
| "js_string (Str s) = s"
| "js_string (Fn f) = ''function''"
| "js_string (Arr vs) = js_join vs"
| "js_string (Obj a) = ''[object Object]''"
| "js_string (Prx p) = ''[object Object]''"
| "js_string (Ref i) = ''[object Object]''"
| "js_join [] = []"
| "js_join (v # vs) =
     (if v = Undefined \<or> v = Null then [] else js_string v) @
     (if vs = [] then [] else CHR '','' # js_join vs)"

text \<open>\<open>v.toString(16)\<close>: the radix counts for a number only.\<close>

definition js_string16 :: "val \<Rightarrow> string" where
  "js_string16 v = (case v of Num n \<Rightarrow> num_to_string 16 n | _ \<Rightarrow> js_string v)"

text \<open>\<open>s.indexOf(m) >= 0\<close> on strings: \<open>m\<close> occurs in \<open>s\<close>.\<close>

fun occurs_in :: "string \<Rightarrow> string \<Rightarrow> bool" where
  "occurs_in m [] = (m = [])"
| "occurs_in m (c # s) = (take (length m) (c # s) = m \<or> occurs_in m s)"

text \<open>The reference id \<open>addStub\<close> composes, and \<open>isStubId\<close>.\<close>

definition mint_id :: "int \<Rightarrow> int \<Rightarrow> int" where
  "mint_id p cnt = js_shl p 24 + cnt"

definition isStubId :: "int \<Rightarrow> int \<Rightarrow> bool" where
  "isStubId p r \<longleftrightarrow> js_shr r 24 = p"

section \<open>Export: make\$free, \_sendMetadata, addStub\<close>

definition make_free :: "jsobj \<Rightarrow> int \<Rightarrow> jsobj" where
  "make_free ob i = ob(''$free'' := Fn (StubFree i (free ob)))"

text \<open>
  Running a function value with no argument, as a hook is called. The closure of
  \<open>make$free\<close> deletes its id from \<open>_knownStubIds\<close> and then calls the previous
  hook, when there was one. The closure of a proxy method finds no \<open>_socket\<close> on
  the \<open>this\<close> of such a call and throws a TypeError, as the call of a value that is
  not a function does: the exception goes to the host that called the hook, and the
  Endpoint is left as it is.
\<close>

fun run_fn :: "fn \<Rightarrow> state \<Rightarrow> state" where
  "run_fn (UserFn n) s = s\<lparr>freeLog := freeLog s @ [n]\<rparr>"
| "run_fn (StubFree i prev) s =
     (let s' = s\<lparr>knownStubIds := (knownStubIds s)(i := None)\<rparr>
      in case prev of None \<Rightarrow> s' | Some f \<Rightarrow> run_fn f s')"
| "run_fn (ProxyFree i) s = s\<lparr>knownProxies := (knownProxies s)(i := None)\<rparr>"
| "run_fn (ProxyMethod m) s = s"
| "run_fn NotCallable s = s"

definition sendMetadata :: "state \<Rightarrow> stub \<Rightarrow> state" where
  "sendMetadata s st =
     (if inCall s
      then s\<lparr>newObjects := newObjects s @ [NewObjectMsg (srpcId st) (smethods st)]\<rparr>
      else s\<lparr>written := written s @ [NewObjectMsg (srpcId st) (smethods st)]\<rparr>)"

text \<open>\<open>addStub\<close> is given an object of the host.\<close>

definition addStub :: "state \<Rightarrow> addr \<Rightarrow> (error + int) \<times> state" where
  "addStub s a =
     (case knownStubs s a of
        Some st \<Rightarrow> (Inr (srpcId st), s)
      | None \<Rightarrow>
         (if \<not> truthy (heap s a ''$rpcMethods'')
          then (Inl (TypeError ''Invalid stub object''), s)
          else
            (let cnt = stubCnt s;
                 s1 = s\<lparr>stubCnt := stubCnt s + 1\<rparr>
             in if cnt \<ge> js_shl 1 24
                then (Inl (RangeError ''Too many stubs''), s1)
                else
                  (let i = mint_id (pid s1) cnt;
                       st = \<lparr>srpcId = i, sobject = a,
                             smethods = heap s1 a ''$rpcMethods''\<rparr>;
                       s2 = s1\<lparr>heap := (heap s1)(a := make_free (heap s1 a) i)\<rparr>;
                       s3 = s2\<lparr>knownStubs := (knownStubs s2)(a \<mapsto> st)\<rparr>;
                       s4 = s3\<lparr>knownStubIds := (knownStubIds s3)(i \<mapsto> a)\<rparr>
                   in (Inr i, sendMetadata s4 st)))))"

section \<open>Marshalling\<close>

text \<open>
  The branch of \<open>_marshalArgument\<close> for an argument whose \<open>$rpcId\<close> is \<open>v\<close>, not
  \<open>undefined\<close>: the token when \<open>v\<close> is a key of \<open>_knownProxies\<close>, whose keys are
  numbers, and the exception otherwise; \<open>null\<close> has no \<open>toString\<close>.
\<close>

definition marshal_id :: "state \<Rightarrow> val \<Rightarrow> error + val" where
  "marshal_id s v =
     (case v of
        Num i \<Rightarrow>
          (if knownProxies s i \<noteq> None then Inr (Ref i)
           else Inl (Error (''Invalid object 0x'' @ num_to_string 16 i @
                   '', likely a proxy from a different socket'')))
      | Null \<Rightarrow> Inl (TypeError ''Cannot read properties of null'')
      | _ \<Rightarrow> Inl (Error (''Invalid object 0x'' @ js_string16 v @
                   '', likely a proxy from a different socket'')))"

text \<open>
  \<open>_marshalArgument\<close> mutates the Endpoint (it may export), and what it did before an
  exception stays done: the state comes back in both cases. \<open>Array.prototype.map\<close>
  goes left to right and stops at the first exception.
\<close>

fun marshalArgument :: "state \<Rightarrow> val \<Rightarrow> (error + val) \<times> state"
  and marshal_map :: "state \<Rightarrow> val list \<Rightarrow> (error + val list) \<times> state" where
  "marshalArgument s (Arr vs) =
     (case marshal_map s vs of
        (Inl e, s') \<Rightarrow> (Inl e, s')
      | (Inr ws, s') \<Rightarrow> (Inr (Arr ws), s'))"
| "marshalArgument s (Obj a) =
     (if heap s a ''$rpcId'' \<noteq> Undefined then (marshal_id s (heap s a ''$rpcId''), s)
      else if truthy (heap s a ''$rpcMethods'') then
        (case addStub s a of
           (Inl e, s') \<Rightarrow> (Inl e, s')
         | (Inr i, s') \<Rightarrow> (Inr (Ref i), s'))
      else (Inr (Obj a), s))"
| "marshalArgument s (Prx p) =
     (case proxyObjs s p of
        None \<Rightarrow> (Inr (Prx p), s)
      | Some px \<Rightarrow>
         (case rpcId_slot (pxId px) (pxMethods px) of
            IdValue i \<Rightarrow> (marshal_id s (Num i), s)
          | IdMethod \<Rightarrow> (marshal_id s (Fn (ProxyMethod ''$rpcId'')), s)
          | IdAccessor \<Rightarrow> (Inl stack_overflow, s)))"
| "marshalArgument s (Ref i) = (marshal_id s (Num i), s)"
| "marshalArgument s v = (Inr v, s)"
| "marshal_map s [] = (Inr [], s)"
| "marshal_map s (v # vs) =
     (case marshalArgument s v of
        (Inl e, s') \<Rightarrow> (Inl e, s')
      | (Inr w, s') \<Rightarrow>
          (case marshal_map s' vs of
             (Inl e, s'') \<Rightarrow> (Inl e, s'')
           | (Inr ws, s'') \<Rightarrow> (Inr (w # ws), s'')))"

text \<open>\<open>_unmarshalArgument\<close> only reads the Endpoint.\<close>

definition resolve_ref :: "state \<Rightarrow> int \<Rightarrow> error + val" where
  "resolve_ref s i =
     (case knownStubIds s i of
        Some a \<Rightarrow> Inr (Obj a)
      | None \<Rightarrow>
         (case knownProxies s i of
            Some p \<Rightarrow> Inr (Prx p)
          | None \<Rightarrow> Inl (Error (''Invalid object '' @ num_to_string 10 i))))"

text \<open>The branch for an argument whose \<open>$rpcId\<close> is \<open>v\<close>, not \<open>undefined\<close>:
  only a number is a key of the two tables.\<close>

definition unmarshal_id :: "state \<Rightarrow> val \<Rightarrow> error + val" where
  "unmarshal_id s v =
     (case v of
        Num i \<Rightarrow> resolve_ref s i
      | _ \<Rightarrow> Inl (Error (''Invalid object '' @ js_string v)))"

fun unmarshalArgument :: "state \<Rightarrow> val \<Rightarrow> error + val"
  and unmarshal_map :: "state \<Rightarrow> val list \<Rightarrow> error + val list" where
  "unmarshalArgument s (Arr vs) =
     (case unmarshal_map s vs of Inl e \<Rightarrow> Inl e | Inr ws \<Rightarrow> Inr (Arr ws))"
| "unmarshalArgument s (Obj a) =
     (if heap s a ''$rpcId'' \<noteq> Undefined then unmarshal_id s (heap s a ''$rpcId'')
      else Inr (Obj a))"
| "unmarshalArgument s (Prx p) =
     (case proxyObjs s p of
        None \<Rightarrow> Inr (Prx p)
      | Some px \<Rightarrow>
         (case rpcId_slot (pxId px) (pxMethods px) of
            IdValue i \<Rightarrow> unmarshal_id s (Num i)
          | IdMethod \<Rightarrow> unmarshal_id s (Fn (ProxyMethod ''$rpcId''))
          | IdAccessor \<Rightarrow> Inl stack_overflow))"
| "unmarshalArgument s (Ref i) = resolve_ref s i"
| "unmarshalArgument s v = Inr v"
| "unmarshal_map s [] = Inr []"
| "unmarshal_map s (v # vs) =
     (case unmarshalArgument s v of
        Inl e \<Rightarrow> Inl e
      | Inr w \<Rightarrow>
          (case unmarshal_map s vs of Inl e \<Rightarrow> Inl e | Inr ws \<Rightarrow> Inr (w # ws)))"

section \<open>Outbound calls\<close>

definition failAllCalls :: "state \<Rightarrow> state" where
  "failAllCalls s =
     s\<lparr>settled := settled s @
          map (\<lambda>(i, d). (d, Rejected (Error ''Socket closed''))) (pendingCalls s),
       pendingCalls := []\<rparr>"

text \<open>
  The second half of \<open>call()\<close>, from the end of \<open>args.map\<close> on: an exception of
  the marshaller leaves \<open>call()\<close> at once; otherwise the queued announcements are
  written, the guard is cleared, and the call is registered and written.
\<close>

definition finish_call ::
  "val \<Rightarrow> string \<Rightarrow> (error + val list) \<times> state \<Rightarrow> call_result \<times> state" where
  "finish_call ob method r =
     (case r of
        (Inl e, s1) \<Rightarrow> (Thrown e, s1)
      | (Inr marshalled, s1) \<Rightarrow>
          (let s2 = s1\<lparr>written := written s1 @ newObjects s1\<rparr>;
               s3 = s2\<lparr>newObjects := [], inCall := False\<rparr>;
               i = callId s3;
               s4 = s3\<lparr>callId := callId s3 + 1\<rparr>;
               d = nextDeferred s4;
               s5 = s4\<lparr>nextDeferred := Suc d\<rparr>;
               s6 = s5\<lparr>pendingCalls := AList.update i d (pendingCalls s5)\<rparr>
           in (Returned (DeferredPromise d),
               s6\<lparr>written := written s6 @ [CallMsg i ob method marshalled]\<rparr>)))"

definition call :: "state \<Rightarrow> val \<Rightarrow> string \<Rightarrow> val list \<Rightarrow> call_result \<times> state" where
  "call s ob method args =
     (if inCall s then (Thrown (Error ''Re-entrant calls are not supported''), s)
      else if ended s then (Returned (RejectedPromise (Error ''Socket closed'')), s)
      else finish_call ob method (marshal_map (s\<lparr>inCall := True\<rparr>) args))"

definition getProxy :: "state \<Rightarrow> int \<Rightarrow> addr option" where
  "getProxy s i = knownProxies s i"

section \<open>RpcStub\<close>

text \<open>
  \<open>this.methods.indexOf(method) < 0\<close>: on an array the method name must be an
  element, on a string it must occur in it; any other value has no \<open>indexOf\<close>, and
  the call throws a TypeError (an object with an \<open>indexOf\<close> of its own would run
  code of the host, which is not followed).
\<close>

definition validateCall :: "stub \<Rightarrow> string \<Rightarrow> error option" where
  "validateCall st method =
     (case smethods st of
        Arr vs \<Rightarrow>
          (if Str method \<in> set vs then None
           else Some (Error (''Invalid method '' @ method)))
      | Str ms \<Rightarrow>
          (if occurs_in method ms then None
           else Some (Error (''Invalid method '' @ method)))
      | _ \<Rightarrow> Some (TypeError ''this.methods.indexOf is not a function''))"

definition stub_get :: "state \<Rightarrow> stub \<Rightarrow> string \<Rightarrow> (error + val) \<times> state" where
  "stub_get s st name =
     (case validateCall st (''get '' @ name) of
        Some e \<Rightarrow> (Inl e, s)
      | None \<Rightarrow> (Inr (heap s (sobject st) name), s))"

text \<open>As the source notes, \<open>get foo\<close> in the allow-list allows both to read and to
  write \<open>foo\<close>.\<close>

definition stub_set :: "state \<Rightarrow> stub \<Rightarrow> string \<Rightarrow> val \<Rightarrow> (error + val) \<times> state" where
  "stub_set s st name v =
     (case validateCall st (''get '' @ name) of
        Some e \<Rightarrow> (Inl e, s)
      | None \<Rightarrow>
          (Inr Undefined,
           s\<lparr>heap := (heap s)(sobject st := (heap s (sobject st))(name := v))\<rparr>))"

text \<open>
  \<open>this.object[method].apply(this.object, args)\<close> runs code of the host: it is the
  parameter \<open>invoke\<close>, which returns what the method returned or threw.
\<close>

type_synonym invoker = "state \<Rightarrow> addr \<Rightarrow> string \<Rightarrow> val list \<Rightarrow> (error + val) \<times> state"

definition stub_call ::
  "invoker \<Rightarrow> state \<Rightarrow> stub \<Rightarrow> string \<Rightarrow> val list \<Rightarrow> (error + val) \<times> state" where
  "stub_call invoke s st method args =
     (case validateCall st method of
        Some e \<Rightarrow> (Inl e, s)
      | None \<Rightarrow> invoke s (sobject st) method args)"

section \<open>Inbound calls\<close>

text \<open>
  The function given to \<open>Q.try\<close> in \<open>_handleCall\<close>. The source passes the
  property name to \<open>stub.get\<close> and \<open>stub.set\<close> inside a one-element array; string
  concatenation and property access turn that array back into the name.
\<close>

definition call_body ::
  "invoker \<Rightarrow> state \<Rightarrow> int \<Rightarrow> string \<Rightarrow> val \<Rightarrow> (error + val) \<times> state" where
  "call_body invoke s ob method params =
     (case knownStubIds s ob of
        None \<Rightarrow> (Inl (Error (''Invalid object 0x'' @ num_to_string 16 ob)), s)
      | Some a \<Rightarrow>
         (case params of
            Arr ps \<Rightarrow>
              (case unmarshal_map s ps of
                 Inl e \<Rightarrow> (Inl e, s)
               | Inr unmarshalled \<Rightarrow>
                  (if take 4 method = ''get '' then
                     (if length unmarshalled \<noteq> 0
                      then (Inl (Error ''Wrong number of arguments, expected 0''), s)
                      else (case knownStubs s a of
                              None \<Rightarrow> (Inl (TypeError ''stub is undefined''), s)
                            | Some st \<Rightarrow> stub_get s st (drop 4 method)))
                   else if take 4 method = ''set '' then
                     (if length unmarshalled \<noteq> 1
                      then (Inl (Error ''Wrong number of arguments, expected 1''), s)
                      else (case knownStubs s a of
                              None \<Rightarrow> (Inl (TypeError ''stub is undefined''), s)
                            | Some st \<Rightarrow>
                                stub_set s st (drop 4 method) (hd unmarshalled)))
                   else (case knownStubs s a of
                           None \<Rightarrow> (Inl (TypeError ''stub is undefined''), s)
                         | Some st \<Rightarrow> stub_call invoke s st method unmarshalled)))
          | _ \<Rightarrow> (Inl (Error ''Malformed method call''), s)))"

text \<open>The \<open>catch\<close> handler: the error reply, unless the call has no reply slot.\<close>

definition reply_error :: "state \<Rightarrow> mid \<Rightarrow> error \<Rightarrow> state" where
  "reply_error s i e =
     (case i of
        IdNum n \<Rightarrow>
          (case e of
             SyntaxError m f l \<Rightarrow>
               s\<lparr>written := written s @ [ReplySyntaxError n f l m]\<rparr>
           | _ \<Rightarrow>
               (if error_message e \<noteq> []
                then s\<lparr>written := written s @ [ReplyError n (error_message e)]\<rparr>
                else s\<lparr>written := written s @ [ReplyError n (error_to_string e)]\<rparr>))
      | _ \<Rightarrow> s)"

text \<open>The \<open>then\<close> handler: the reply is marshalled, then written; an exception of
  the marshaller goes on to the \<open>catch\<close> handler.\<close>

definition reply_value :: "state \<Rightarrow> mid \<Rightarrow> val \<Rightarrow> state" where
  "reply_value s i v =
     (case i of
        IdNum n \<Rightarrow>
          (case marshalArgument s v of
             (Inl e, s') \<Rightarrow> s'\<lparr>tasks := tasks s' @ [CatchReply i e]\<rparr>
           | (Inr w, s') \<Rightarrow> s'\<lparr>written := written s' @ [ReplyMsg n w]\<rparr>)
      | _ \<Rightarrow> s)"

text \<open>\<open>_handleCall\<close> itself: a message without \<open>id\<close> is dropped, any other is
  queued.\<close>

definition handleCall :: "state \<Rightarrow> mid \<Rightarrow> int \<Rightarrow> string \<Rightarrow> val \<Rightarrow> state" where
  "handleCall s i ob method params =
     (if i = IdUndefined then s
      else s\<lparr>tasks := tasks s @ [CallBody i ob method params]\<rparr>)"

text \<open>
  One turn of the queue of Q: the first task is taken off and run. The body queues the
  handler that its outcome selects; the handlers write the reply.
\<close>

definition run_task :: "invoker \<Rightarrow> state \<Rightarrow> state" where
  "run_task invoke s =
     (case tasks s of
        [] \<Rightarrow> s
      | t # rest \<Rightarrow>
         (case t of
            CallBody i ob method params \<Rightarrow>
              (case call_body invoke (s\<lparr>tasks := rest\<rparr>) ob method params of
                 (Inr v, s') \<Rightarrow> s'\<lparr>tasks := tasks s' @ [ThenReply i v]\<rparr>
               | (Inl e, s') \<Rightarrow> s'\<lparr>tasks := tasks s' @ [CatchReply i e]\<rparr>)
          | ThenReply i v \<Rightarrow> reply_value (s\<lparr>tasks := rest\<rparr>) i v
          | CatchReply i e \<Rightarrow> reply_error (s\<lparr>tasks := rest\<rparr>) i e))"

section \<open>Inbound replies\<close>

text \<open>
  \<open>_handleReply\<close>: the pending entry is deleted first; whatever the \<open>try\<close> block
  throws, the error of the peer or an exception of \<open>_unmarshalArgument\<close>, is caught and
  rejects the promise.
\<close>

definition reply_result :: "state \<Rightarrow> val \<Rightarrow> string option \<Rightarrow> string \<Rightarrow> val \<Rightarrow> val \<Rightarrow> error + val" where
  "reply_result s reply err message fileName lineNumber =
     (case err of
        Some e \<Rightarrow>
          (if e = [] then unmarshalArgument s reply
           else if e = ''SyntaxError'' then Inl (SyntaxError message fileName lineNumber)
           else Inl (Error e))
      | None \<Rightarrow> unmarshalArgument s reply)"

definition handleReply ::
  "state \<Rightarrow> mid \<Rightarrow> val \<Rightarrow> string option \<Rightarrow> string \<Rightarrow> val \<Rightarrow> val \<Rightarrow> state" where
  "handleReply s i reply err message fileName lineNumber =
     (case i of
        IdNum n \<Rightarrow>
          (case map_of (pendingCalls s) n of
             None \<Rightarrow> s
           | Some d \<Rightarrow>
               (let s1 = s\<lparr>pendingCalls := AList.delete n (pendingCalls s)\<rparr>
                in case reply_result s1 reply err message fileName lineNumber of
                     Inr v \<Rightarrow> s1\<lparr>settled := settled s1 @ [(d, Resolved v)]\<rparr>
                   | Inl e \<Rightarrow> s1\<lparr>settled := settled s1 @ [(d, Rejected e)]\<rparr>))
      | _ \<Rightarrow> s)"

section \<open>RpcProxy and new-object announcements\<close>

text \<open>
  The setter of an accessor \<open>name\<close> of a proxy with the id \<open>i\<close>, when the names of
  \<open>ms\<close> have been declared: \<open>this._socket.call(this.$rpcId, 'set ' + name, [v])\<close>.
  An accessor \<open>_socket\<close> or \<open>$rpcId\<close> overflows the stack; a closure in
  \<open>_socket\<close> is called through \<open>Function.prototype.call\<close> and finds no
  \<open>_socket\<close> on its \<open>this\<close>; otherwise the call is made on what \<open>$rpcId\<close> holds.
\<close>

definition proxy_set ::
  "state \<Rightarrow> int \<Rightarrow> string list \<Rightarrow> string \<Rightarrow> val \<Rightarrow> error option \<times> state" where
  "proxy_set s i ms name v =
     (case socket_slot ms of
        SockAccessor \<Rightarrow> (Some stack_overflow, s)
      | SockMethod \<Rightarrow>
          (case rpcId_slot i ms of
             IdAccessor \<Rightarrow> (Some stack_overflow, s)
           | _ \<Rightarrow> (Some (TypeError ''Cannot read properties of undefined''), s))
      | SockValue \<Rightarrow>
          (case rpcId_slot i ms of
             IdAccessor \<Rightarrow> (Some stack_overflow, s)
           | IdMethod \<Rightarrow>
               (case call s (Fn (ProxyMethod ''$rpcId'')) (''set '' @ name) [v] of
                  (Thrown e, s') \<Rightarrow> (Some e, s')
                | (Returned p, s') \<Rightarrow> (None, s'))
           | IdValue n \<Rightarrow>
               (case call s (Num n) (''set '' @ name) [v] of
                  (Thrown e, s') \<Rightarrow> (Some e, s')
                | (Returned p, s') \<Rightarrow> (None, s'))))"

text \<open>
  The \<open>forEach\<close> of \<open>RpcProxy\<close>, with the names declared so far. \<open>get X\<close>
  defines the accessor \<open>X\<close>, and changes nothing of the Endpoint. Any other name is
  assigned a closure: when it is an accessor by now, the assignment is a call of its
  setter; an exception of that call leaves the constructor.
\<close>

fun construct :: "state \<Rightarrow> int \<Rightarrow> string list \<Rightarrow> string list \<Rightarrow> error option \<times> state" where
  "construct s i declared [] = (None, s)"
| "construct s i declared (m # ms) =
     (if take 4 m = ''get '' then construct s i (declared @ [m]) ms
      else if (''get '' @ m) \<in> set declared then
        (case proxy_set s i declared m (Fn (ProxyMethod m)) of
           (Some e, s') \<Rightarrow> (Some e, s')
         | (None, s') \<Rightarrow> construct s' i (declared @ [m]) ms)
      else construct s i (declared @ [m]) ms)"

text \<open>
  The \<open>new-object\<close> case of \<open>_handleMessage\<close>: the proxy is built, entered in
  \<open>_knownProxies\<close>, and then given its \<open>$free\<close>, which is a call of the setter when
  the list has made \<open>$free\<close> an accessor. An exception leaves \<open>_handleMessage\<close>.
\<close>

definition new_proxy :: "state \<Rightarrow> int \<Rightarrow> string list \<Rightarrow> error option \<times> state" where
  "new_proxy s i ms =
     (case construct s i [] ms of
        (Some e, s') \<Rightarrow> (Some e, s')
      | (None, s') \<Rightarrow>
          (let a = nextAddr s';
               s2 = s'\<lparr>proxyObjs := (proxyObjs s')(a \<mapsto> \<lparr>pxId = i, pxMethods = ms\<rparr>),
                       nextAddr := Suc a,
                       knownProxies := (knownProxies s')(i \<mapsto> a)\<rparr>
           in if ''get $free'' \<in> set ms
              then proxy_set s2 i ms ''$free'' (Fn (ProxyFree i))
              else (None, s2)))"

text \<open>What \<open>$free\<close> of a proxy holds afterwards, when it is not an accessor.\<close>

definition proxy_free :: "proxy \<Rightarrow> fn option" where
  "proxy_free px =
     (if ''get $free'' \<in> set (pxMethods px) then None else Some (ProxyFree (pxId px)))"

section \<open>\_handleMessage and the listeners\<close>

fun handleMessage :: "state \<Rightarrow> inmsg \<Rightarrow> error option \<times> state" where
  "handleMessage s (InNewObject i ms) =
     (if knownProxies s i \<noteq> None then (None, s) else new_proxy s i ms)"
| "handleMessage s (InCall i ob method params) =
     (None, handleCall s i ob method params)"
| "handleMessage s (InReply i reply err message fileName lineNumber) =
     (None, handleReply s i reply err message fileName lineNumber)"
| "handleMessage s InOther = (None, s)"

text \<open>The listeners the constructor puts on the channel.\<close>

definition on_error :: "state \<Rightarrow> error \<Rightarrow> state" where
  "on_error s err =
     (let s1 = failAllCalls s in s1\<lparr>emitted := emitted s1 @ [EvError err]\<rparr>)"

definition on_end :: "state \<Rightarrow> state" where
  "on_end s = s\<lparr>emitted := emitted s @ [EvEnd]\<rparr>"

definition on_close :: "state \<Rightarrow> bool \<Rightarrow> state" where
  "on_close s hadError = s\<lparr>ended := True, emitted := emitted s @ [EvClose hadError]\<rparr>"

section \<open>Predicates and examples used by the properties\<close>

text \<open>
  A value that \<open>_unmarshalArgument\<close> cannot resolve: somewhere in it (arrays are
  searched, element by element) there is a reference whose id is neither in
  \<open>_knownStubIds\<close> nor in \<open>_knownProxies\<close>; an object whose \<open>$rpcId\<close> is not a
  number is such a reference, since the keys of both tables are numbers.
\<close>

fun unknown_ref :: "state \<Rightarrow> val \<Rightarrow> bool"
  and unknown_ref_list :: "state \<Rightarrow> val list \<Rightarrow> bool" where
  "unknown_ref s (Arr vs) = unknown_ref_list s vs"
| "unknown_ref s (Obj a) =
     (case heap s a ''$rpcId'' of
        Undefined \<Rightarrow> False
      | Num i \<Rightarrow> knownStubIds s i = None \<and> knownProxies s i = None
      | _ \<Rightarrow> True)"
| "unknown_ref s (Prx p) =
     (case proxyObjs s p of
        None \<Rightarrow> False
      | Some px \<Rightarrow>
         (case rpcId_slot (pxId px) (pxMethods px) of
            IdValue i \<Rightarrow> knownStubIds s i = None \<and> knownProxies s i = None
          | _ \<Rightarrow> True))"
| "unknown_ref s (Ref i) = (knownStubIds s i = None \<and> knownProxies s i = None)"
| "unknown_ref s v = False"
| "unknown_ref_list s [] = False"
| "unknown_ref_list s (v # vs) = (unknown_ref s v \<or> unknown_ref_list s vs)"

text \<open>
  A small world for the examples: object 0 is exportable, with a host \<open>$free\<close> of its
  own and a property \<open>x\<close>; object 1 is a proxy of some other Endpoint, as the host
  holds it: an object with the \<open>$rpcId\<close> 99; object 2 is exportable too; the process
  id is 1.
\<close>

definition example_heap :: "addr \<Rightarrow> jsobj" where
  "example_heap =
     (\<lambda>a. plain_object)
       (0 := plain_object(''$rpcMethods'' := Arr [Str ''ping'', Str ''get x''],
                          ''$free'' := Fn (UserFn 7), ''x'' := Num 5),
        1 := plain_object(''$rpcId'' := Num 99),
        2 := plain_object(''$rpcMethods'' := Arr [Str ''pong'']))"

definition example_state :: state where
  "example_state = init 1 example_heap 3"

text \<open>
  The host disposes of an object by calling its \<open>$free\<close>. \<open>churn n\<close> exports the
  objects 0, ..., n - 1 one after the other and disposes of each right after its
  export, in a heap where every object carries an allow-list and no hook.
\<close>

definition dispose :: "state \<Rightarrow> addr \<Rightarrow> state" where
  "dispose s a = (case free (heap s a) of None \<Rightarrow> s | Some f \<Rightarrow> run_fn f s)"



text \<open>The example world with object 0 exported: its id is 16777216.\<close>

definition exported_state :: state where
  "exported_state = snd (addStub example_state 0)"

text \<open>
  More states of the example world. In \<open>collision_state\<close> object 0 is exported and the
  peer then announces an object under that same id; in \<open>import_state\<close> the peer
  announces the id 99, which object 1 carries too; in \<open>marked_export_state\<close> object 2
  is exported after the host gave it a \<open>$rpcId\<close> of its own; in \<open>renamed_state\<close>
  the peer announces the id 99 with a method named \<open>$rpcId\<close>; in
  \<open>round_trip_state\<close> object 0 is exported and the id 99 imported. The first proxy
  has the address 3.
\<close>

definition collision_state :: state where
  "collision_state = snd (handleMessage exported_state (InNewObject 16777216 [''pong'']))"

definition import_state :: state where
  "import_state = snd (handleMessage example_state (InNewObject 99 [''pong'']))"

definition marked_export_state :: state where
  "marked_export_state =
     snd (addStub (example_state\<lparr>heap := (heap example_state)
            (2 := (heap example_state 2)(''$rpcId'' := Num 99))\<rparr>) 2)"

definition renamed_state :: state where
  "renamed_state = snd (handleMessage example_state (InNewObject 99 [''$rpcId'']))"

definition round_trip_state :: state where
  "round_trip_state = snd (handleMessage exported_state (InNewObject 99 [''pong'']))"

text \<open>
  The values a round trip gives back: primitives, functions, arrays of such values; a
  proxy whose \<open>$rpcId\<close> still is its id (no announced member has taken the name) and
  which is the proxy \<open>_knownProxies\<close> holds for that id, the id not being a key of
  \<open>_knownStubIds\<close> as well; an object of the host without \<open>$rpcId\<close> that, when its
  \<open>$rpcMethods\<close> is truthy, has its stub, whose id \<open>_knownStubIds\<close> maps back to
  the object.
\<close>

fun known_value :: "state \<Rightarrow> val \<Rightarrow> bool"
  and known_values :: "state \<Rightarrow> val list \<Rightarrow> bool" where
  "known_value s (Arr vs) = known_values s vs"
| "known_value s (Obj a) =
     (heap s a ''$rpcId'' = Undefined \<and>
      (if truthy (heap s a ''$rpcMethods'')
       then (case knownStubs s a of
               Some st \<Rightarrow> knownStubIds s (srpcId st) = Some a
             | None \<Rightarrow> False)
       else True))"
| "known_value s (Prx p) =
     (case proxyObjs s p of
        None \<Rightarrow> False
      | Some px \<Rightarrow>
         (case rpcId_slot (pxId px) (pxMethods px) of
            IdValue i \<Rightarrow> knownProxies s i = Some p \<and> knownStubIds s i = None
          | _ \<Rightarrow> False))"
| "known_value s (Ref i) = False"
| "known_value s v = True"
| "known_values s [] = True"
| "known_values s (v # vs) = (known_value s v \<and> known_values s vs)"




text \<open>
  The announcements of one call. \<open>announced\<close> reads the id of a \<open>new-object\<close>
  message; \<open>minted_ids p c n\<close> are the \<open>n\<close> ids minted from the counter value
  \<open>c\<close> on, in the order of minting. Outside \<open>call()\<close> the queue \<open>_newObjects\<close>
  is empty: \<open>queue_inv\<close>.
\<close>

fun announced :: "msg \<Rightarrow> int option" where
  "announced (NewObjectMsg i ms) = Some i"
| "announced m = None"

definition minted_ids :: "int \<Rightarrow> int \<Rightarrow> nat \<Rightarrow> int list" where
  "minted_ids p c n = map (\<lambda>k. mint_id p (c + int k)) [0..<n]"

definition queue_inv :: "state \<Rightarrow> bool" where
  "queue_inv s \<longleftrightarrow> inCall s \<or> newObjects s = []"








text \<open>A value with a reference that \<open>_marshalArgument\<close> refuses: an object or token
  whose \<open>$rpcId\<close> is not a key of \<open>_knownProxies\<close>, as that of a proxy of another
  Endpoint.\<close>

fun foreign_ref :: "state \<Rightarrow> val \<Rightarrow> bool"
  and foreign_ref_list :: "state \<Rightarrow> val list \<Rightarrow> bool" where
  "foreign_ref s (Arr vs) = foreign_ref_list s vs"
| "foreign_ref s (Obj a) =
     (case heap s a ''$rpcId'' of
        Undefined \<Rightarrow> False
      | Num i \<Rightarrow> knownProxies s i = None
      | _ \<Rightarrow> True)"
| "foreign_ref s (Prx p) =
     (case proxyObjs s p of
        None \<Rightarrow> False
      | Some px \<Rightarrow>
         (case rpcId_slot (pxId px) (pxMethods px) of
            IdValue i \<Rightarrow> knownProxies s i = None
          | _ \<Rightarrow> True))"
| "foreign_ref s (Ref i) = (knownProxies s i = None)"
| "foreign_ref s v = False"
| "foreign_ref_list s [] = False"
| "foreign_ref_list s (v # vs) = (foreign_ref s v \<or> foreign_ref_list s vs)"

section \<open>Properties\<close>

subsection \<open>Readings of an object\<close>

lemma strings_of_map [simp]: "strings_of (map Str ms) = Some ms"
  by (induction ms) simp_all

lemma strings_of_Some: "strings_of vs = Some ms \<Longrightarrow> vs = map Str ms"
proof (induction vs arbitrary: ms)
  case Nil
  then show ?case by simp
next
  case (Cons v vs)
  then show ?case by (cases v) (auto split: option.splits)
qed

lemma rpcMethods_Some:
  "rpcMethods ob = Some ms \<Longrightarrow> ob ''$rpcMethods'' = Arr (map Str ms)"
  by (auto simp: rpcMethods_def strings_of_Some split: val.splits)

lemma rpcMethods_truthy: "rpcMethods ob = Some ms \<Longrightarrow> truthy (ob ''$rpcMethods'')"
  by (simp add: rpcMethods_Some)

lemma example_heap_simps [simp]:
  "rpcMethods (example_heap 0) = Some [''ping'', ''get x'']"
  "free (example_heap 0) = Some (UserFn 7)"
  "example_heap 0 ''$rpcMethods'' = Arr [Str ''ping'', Str ''get x'']"
  "example_heap 0 ''$rpcId'' = Undefined"
  "example_heap 0 ''x'' = Num 5"
  "example_heap 1 ''$rpcId'' = Num 99"
  "example_heap (Suc 0) ''$rpcId'' = Num 99"
  "example_heap 2 ''$rpcMethods'' = Arr [Str ''pong'']"
  "example_heap 2 ''$rpcId'' = Undefined"
  "free (example_heap 2) = None"
  by (simp_all add: example_heap_def plain_object_def rpcMethods_def free_def)

subsection \<open>Unmarshalling\<close>

lemma resolve_ref_fails:
  "(\<exists>e. resolve_ref s i = Inl e) \<longleftrightarrow> knownStubIds s i = None \<and> knownProxies s i = None"
  by (simp add: resolve_ref_def split: option.splits)

lemma unmarshal_id_fails:
  "v \<noteq> Undefined \<Longrightarrow>
     (\<exists>e. unmarshal_id s v = Inl e) \<longleftrightarrow>
       (case v of Num i \<Rightarrow> knownStubIds s i = None \<and> knownProxies s i = None | _ \<Rightarrow> True)"
  by (cases v) (simp_all add: unmarshal_id_def resolve_ref_fails)

lemma unmarshal_fails_iff:
  "(\<exists>e. unmarshalArgument s v = Inl e) \<longleftrightarrow> unknown_ref s v"
  "(\<exists>e. unmarshal_map s vs = Inl e) \<longleftrightarrow> unknown_ref_list s vs"
proof (induction s v and s vs rule: unmarshalArgument_unmarshal_map.induct)
  case (2 s a)
  then show ?case
    using unmarshal_id_fails [of "heap s a ''$rpcId''" s]
    by (cases "heap s a ''$rpcId''") simp_all
next
  case (3 s p)
  then show ?case
    by (auto simp: unmarshal_id_def resolve_ref_fails split: option.splits idslot.splits)
next
  case (4 s i)
  then show ?case by (simp add: resolve_ref_fails)
qed (auto split: sum.splits)

text \<open>Unmarshalling reads the objects, the proxies and the two id tables, nothing
  else.\<close>

lemma unmarshal_cong:
  assumes "heap s = heap t" "proxyObjs s = proxyObjs t"
    "knownStubIds s = knownStubIds t" "knownProxies s = knownProxies t"
  shows "unmarshalArgument s v = unmarshalArgument t v"
    and "unmarshal_map s vs = unmarshal_map t vs"
  using assms
proof (induction s v and s vs rule: unmarshalArgument_unmarshal_map.induct)
qed (auto simp: resolve_ref_def unmarshal_id_def
       split: option.splits sum.splits val.splits idslot.splits)

subsection \<open>Reply dispatch\<close>

text \<open>
  C10. A reply that matches a pending call and carries no error, but whose payload
  holds a reference id known neither as an export nor as an import: the promise of that
  call is rejected with the exception of \<open>_unmarshalArgument\<close>, the pending entry is
  gone, and nothing else of the Endpoint changes; \<open>_handleReply\<close> returns normally.
\<close>

theorem reply_unmarshal_failure_rejects:
  assumes pend: "map_of (pendingCalls s) n = Some d"
    and noerr: "err = None \<or> err = Some []"
    and bad: "unknown_ref s reply"
  shows "\<exists>e. unmarshalArgument s reply = Inl e \<and>
           handleReply s (IdNum n) reply err message fileName lineNumber =
             s\<lparr>pendingCalls := AList.delete n (pendingCalls s),
               settled := settled s @ [(d, Rejected e)]\<rparr> \<and>
           map_of (pendingCalls
             (handleReply s (IdNum n) reply err message fileName lineNumber)) n = None"
proof -
  from bad obtain e where e: "unmarshalArgument s reply = Inl e"
    using unmarshal_fails_iff(1) by blast
  let ?s1 = "s\<lparr>pendingCalls := AList.delete n (pendingCalls s)\<rparr>"
  have "unmarshalArgument ?s1 reply = Inl e"
    using e unmarshal_cong(1) [of ?s1 s reply] by simp
  then have r: "reply_result ?s1 reply err message fileName lineNumber = Inl e"
    using noerr by (auto simp: reply_result_def)
  have h: "handleReply s (IdNum n) reply err message fileName lineNumber =
      s\<lparr>pendingCalls := AList.delete n (pendingCalls s),
        settled := settled s @ [(d, Rejected e)]\<rparr>"
    using pend r by (simp add: handleReply_def Let_def)
  show ?thesis using e h by (simp add: delete_conv')
qed

theorem reply_unmarshal_failure_rejects_witness:
  "map_of (pendingCalls (example_state\<lparr>pendingCalls := [(0, 4)]\<rparr>)) 0 = Some 4 \<and>
   unknown_ref (example_state\<lparr>pendingCalls := [(0, 4)]\<rparr>) (Arr [Num 1, Ref 5]) \<and>
   settled (handleReply (example_state\<lparr>pendingCalls := [(0, 4)]\<rparr>) (IdNum 0)
      (Arr [Num 1, Ref 5]) None [] Undefined Undefined)
     = [(4, Rejected (Error ''Invalid object 5''))] \<and>
   pendingCalls (handleReply (example_state\<lparr>pendingCalls := [(0, 4)]\<rparr>) (IdNum 0)
      (Arr [Num 1, Ref 5]) None [] Undefined Undefined) = []"
  using reply_unmarshal_failure_rejects
    [of "example_state\<lparr>pendingCalls := [(0, 4)]\<rparr>" 0 4 None "Arr [Num 1, Ref 5]"
        "[]" Undefined Undefined]
  by (simp add: example_state_def init_def resolve_ref_def num_to_string_def
        digits.simps digit_char_def AList.delete_eq)

subsection \<open>Channel closure\<close>

text \<open>The \<open>error\<close> listener rejects every pending call and empties the table.\<close>

lemma on_error_fails_all:
  "pendingCalls (on_error s err) = [] \<and>
   settled (on_error s err) =
     settled s @ map (\<lambda>(i, d). (d, Rejected (Error ''Socket closed''))) (pendingCalls s)"
  by (simp add: on_error_def failAllCalls_def Let_def)

text \<open>Once \<open>_ended\<close> is set, a call outside any other call is refused by a rejected
  promise, and the Endpoint, the channel included, is as before.\<close>

lemma call_after_close:
  "\<not> inCall s \<Longrightarrow> ended s \<Longrightarrow>
     call s ob method args = (Returned (RejectedPromise (Error ''Socket closed'')), s)"
  by (simp add: call_def)

text \<open>The \<open>close\<close> listener settles no promise and keeps the table.\<close>

lemma on_close_keeps_calls:
  "pendingCalls (on_close s hadError) = pendingCalls s \<and>
   settled (on_close s hadError) = settled s \<and> ended (on_close s hadError)"
  by (simp add: on_close_def)

text \<open>
  C1. The \<open>close\<close> listener sets \<open>_ended\<close> and emits the event, and that is all:
  a call that is pending when the channel closes without an \<open>error\<close> event stays in
  the table and its promise is never settled. Here: one call is made, then the channel
  closes.
\<close>

theorem close_leaves_pending_calls:
  "pendingCalls (on_close (snd (call example_state (Num 5) ''ping'' [])) False) = [(0, 0)] \<and>
   settled (on_close (snd (call example_state (Num 5) ''ping'' [])) False) = [] \<and>
   ended (on_close (snd (call example_state (Num 5) ''ping'' [])) False)"
  by (simp add: on_close_def call_def finish_call_def example_state_def init_def Let_def)

subsection \<open>Reference ids\<close>

lemma js_shl_1_24: "js_shl 1 24 = 16777216"
  by (simp add: js_shl_def)

text \<open>On one Endpoint the prefix is fixed, and the id follows the counter.\<close>

lemma mint_id_same_prefix: "mint_id p c = mint_id p c' \<longleftrightarrow> c = c'"
  by (simp add: mint_id_def)

text \<open>Process ids that differ by a multiple of 256 give the same prefix.\<close>

lemma js_shl_24_mod: "js_shl (p + 256) 24 = js_shl p 24"
proof -
  have "push_bit 24 (word_of_int (p + 256) :: 32 word)
      = push_bit 24 (word_of_int p) + push_bit 24 (256 :: 32 word)"
    by (simp add: push_bit_eq_mult distrib_right)
  also have "push_bit 24 (256 :: 32 word) = 0" by simp
  finally show ?thesis by (simp add: js_shl_def)
qed

lemma mint_id_pid_mod: "mint_id (p + 256) c = mint_id p c"
  by (simp add: mint_id_def js_shl_24_mod)

text \<open>
  C8. \<open>process.pid << 24\<close> is a 32-bit shift: only the low 8 bits of the process id
  reach the reference id. The processes 1 and 257 mint the same first id, and
  \<open>isStubId\<close>, which expects to read the process id back from the id, does not
  recognise the id process 257 has minted.
\<close>

theorem reference_ids_collide_across_processes:
  "mint_id 1 0 = mint_id 257 0 \<and>
   fst (addStub (init 1 example_heap 3) 0) = Inr 16777216 \<and>
   fst (addStub (init 257 example_heap 3) 0) = Inr 16777216 \<and>
   \<not> isStubId 257 (mint_id 257 0)"
  by (simp add: mint_id_def js_shl_def js_shr_def isStubId_def addStub_def init_def
        Let_def)

subsection \<open>The export counter\<close>

lemma free_make_free [simp]: "free (make_free ob i) = Some (StubFree i (free ob))"
  by (simp add: make_free_def free_def)

lemma make_free_other [simp]: "name \<noteq> ''$free'' \<Longrightarrow> make_free ob i name = ob name"
  by (simp add: make_free_def)

lemma rpcMethods_make_free [simp]: "rpcMethods (make_free ob i) = rpcMethods ob"
  by (simp add: rpcMethods_def)


text \<open>\<open>addStub\<close> on an object that has no stub yet and carries an allow-list.\<close>

lemma addStub_fresh:
  assumes "knownStubs s a = None" "rpcMethods (heap s a) = Some ms"
  shows "addStub s a =
     (if stubCnt s \<ge> 16777216
      then (Inl (RangeError ''Too many stubs''), s\<lparr>stubCnt := stubCnt s + 1\<rparr>)
      else (Inr (mint_id (pid s) (stubCnt s)),
            sendMetadata
              (s\<lparr>stubCnt := stubCnt s + 1,
                 heap := (heap s)(a := make_free (heap s a) (mint_id (pid s) (stubCnt s))),
                 knownStubs := (knownStubs s)(a \<mapsto>
                    \<lparr>srpcId = mint_id (pid s) (stubCnt s), sobject = a, smethods = Arr (map Str ms)\<rparr>),
                 knownStubIds := (knownStubIds s)(mint_id (pid s) (stubCnt s) \<mapsto> a)\<rparr>)
              \<lparr>srpcId = mint_id (pid s) (stubCnt s), sobject = a, smethods = Arr (map Str ms)\<rparr>))"
  using assms rpcMethods_Some [OF assms(2)]
  by (simp add: addStub_def Let_def js_shl_1_24)





subsection \<open>Disposal\<close>

lemma run_fn_knownStubs: "knownStubs (run_fn f s) = knownStubs s"
  by (induction f s rule: run_fn.induct) (simp_all add: Let_def split: option.splits)

lemma run_fn_removes: "knownStubIds s i = None \<Longrightarrow> knownStubIds (run_fn f s) i = None"
  by (induction f s rule: run_fn.induct) (simp_all add: Let_def split: option.splits)

text \<open>
  C4, as amended. After a successful \<open>addStub\<close> of a new object, its \<open>$free\<close> is the
  closure over the new id and the previous \<open>$free\<close>. Running it deletes the id from
  \<open>_knownStubIds\<close> and then runs the previous hook, if there was one; the entry of
  the object in the WeakMap \<open>_knownStubs\<close> is not touched and stays.
\<close>

theorem free_hook_effect:
  assumes fresh: "knownStubs s a = None" and ms: "rpcMethods (heap s a) = Some ms"
    and room: "stubCnt s < 2 ^ 24"
  shows "free (heap (snd (addStub s a)) a)
           = Some (StubFree (mint_id (pid s) (stubCnt s)) (free (heap s a))) \<and>
         dispose (snd (addStub s a)) a =
           (case free (heap s a) of
              None \<Rightarrow> (snd (addStub s a))\<lparr>knownStubIds :=
                  (knownStubIds (snd (addStub s a)))(mint_id (pid s) (stubCnt s) := None)\<rparr>
            | Some f \<Rightarrow> run_fn f ((snd (addStub s a))\<lparr>knownStubIds :=
                  (knownStubIds (snd (addStub s a)))(mint_id (pid s) (stubCnt s) := None)\<rparr>)) \<and>
         knownStubIds (snd (addStub s a)) (mint_id (pid s) (stubCnt s)) = Some a \<and>
         knownStubIds (dispose (snd (addStub s a)) a) (mint_id (pid s) (stubCnt s)) = None \<and>
         knownStubs (dispose (snd (addStub s a)) a) a
           = Some \<lparr>srpcId = mint_id (pid s) (stubCnt s), sobject = a, smethods = Arr (map Str ms)\<rparr>"
proof -
  let ?i = "mint_id (pid s) (stubCnt s)"
  let ?s' = "snd (addStub s a)"
  have f: "free (heap ?s' a) = Some (StubFree ?i (free (heap s a)))"
    using room by (simp add: addStub_fresh [OF fresh ms] sendMetadata_def)
  have k: "knownStubIds ?s' ?i = Some a"
    using room by (simp add: addStub_fresh [OF fresh ms] sendMetadata_def)
  have w: "knownStubs ?s' a = Some \<lparr>srpcId = ?i, sobject = a, smethods = Arr (map Str ms)\<rparr>"
    using room by (simp add: addStub_fresh [OF fresh ms] sendMetadata_def)
  have d: "dispose ?s' a = run_fn (StubFree ?i (free (heap s a))) ?s'"
    by (simp add: dispose_def f)
  have d2: "knownStubIds (dispose ?s' a) ?i = None"
    unfolding d by (cases "free (heap s a)") (simp_all add: Let_def run_fn_removes)
  have d3: "knownStubs (dispose ?s' a) a = knownStubs ?s' a"
    unfolding d by (rule arg_cong [OF run_fn_knownStubs])
  show ?thesis using f k w d2 d3 by (simp add: d Let_def)
qed

theorem free_hook_effect_witness:
  "knownStubs example_state 0 = None \<and>
   rpcMethods (heap example_state 0) = Some [''ping'', ''get x''] \<and>
   stubCnt example_state < 2 ^ 24 \<and>
   free (heap example_state 0) = Some (UserFn 7) \<and>
   freeLog (dispose (snd (addStub example_state 0)) 0) = [7] \<and>
   knownStubIds (dispose (snd (addStub example_state 0)) 0) 16777216 = None"
  using free_hook_effect [of example_state 0 "[''ping'', ''get x'']"]
  by (simp add: example_state_def init_def mint_id_def js_shl_def
      addStub_def Let_def sendMetadata_def dispose_def)

text \<open>
  The claim C4 as stated fails in its second part: after the hook of object 0 has run,
  \<open>_knownStubs\<close> still holds the stub of the object, and a new \<open>addStub\<close> of the
  object returns the id that \<open>_knownStubIds\<close> no longer knows.
\<close>

theorem free_hook_keeps_weak_entry:
  "knownStubs (dispose exported_state 0) 0
     = Some \<lparr>srpcId = 16777216, sobject = 0, smethods = Arr [Str ''ping'', Str ''get x'']\<rparr> \<and>
   knownStubIds (dispose exported_state 0) 16777216 = None \<and>
   fst (addStub (dispose exported_state 0) 0) = Inr 16777216"
  by (simp add: exported_state_def dispose_def example_state_def init_def
      mint_id_def js_shl_def addStub_def Let_def sendMetadata_def)

subsection \<open>Round trip\<close>

lemma known_round_trip:
  "known_value s v \<Longrightarrow>
     \<exists>w. marshalArgument s v = (Inr w, s) \<and> unmarshalArgument s w = Inr v"
  "known_values s vs \<Longrightarrow>
     \<exists>ws. marshal_map s vs = (Inr ws, s) \<and> unmarshal_map s ws = Inr vs"
proof (induction s v and s vs rule: known_value_known_values.induct)
  case (2 s a)
  then show ?case
    by (auto simp: addStub_def resolve_ref_def split: option.splits if_splits)
next
  case (3 s p)
  then show ?case
    by (auto simp: marshal_id_def resolve_ref_def split: option.splits idslot.splits)
qed (auto simp: resolve_ref_def)

text \<open>
  C5, as amended. On a value of \<open>known_value\<close>, marshalling succeeds and changes
  nothing of the Endpoint, and unmarshalling its result gives the value back: the same
  object for a proxy or an export, an equal array or primitive.
\<close>

theorem marshal_unmarshal_round_trip:
  assumes "known_value s v"
  shows "snd (marshalArgument s v) = s \<and>
         (case fst (marshalArgument s v) of
            Inr w \<Rightarrow> unmarshalArgument s w = Inr v
          | Inl e \<Rightarrow> False)"
  using known_round_trip(1) [OF assms] by auto

lemma example_states_simps:
  "exported_state = example_state
     \<lparr>stubCnt := 1,
      heap := example_heap(0 := make_free (example_heap 0) 16777216),
      knownStubs := [0 \<mapsto> \<lparr>srpcId = 16777216, sobject = 0,
                      smethods = Arr [Str ''ping'', Str ''get x'']\<rparr>],
      knownStubIds := [16777216 \<mapsto> 0],
      written := [NewObjectMsg 16777216 (Arr [Str ''ping'', Str ''get x''])]\<rparr>"
  by (simp add: exported_state_def example_state_def init_def addStub_def Let_def
      sendMetadata_def mint_id_def js_shl_def)

theorem marshal_unmarshal_round_trip_witness:
  "known_value round_trip_state (Arr [Num 1, Str ''a'', Obj 0, Arr [Prx 3, Null]]) \<and>
   fst (marshalArgument round_trip_state (Arr [Num 1, Str ''a'', Obj 0, Arr [Prx 3, Null]]))
     = Inr (Arr [Num 1, Str ''a'', Ref 16777216, Arr [Ref 99, Null]]) \<and>
   unmarshalArgument round_trip_state (Arr [Num 1, Str ''a'', Ref 16777216, Arr [Ref 99, Null]])
     = Inr (Arr [Num 1, Str ''a'', Obj 0, Arr [Prx 3, Null]])"
  using marshal_unmarshal_round_trip
    [of round_trip_state "Arr [Num 1, Str ''a'', Obj 0, Arr [Prx 3, Null]]"]
  by (simp add: round_trip_state_def example_states_simps example_state_def init_def
      new_proxy_def Let_def rpcId_slot_def marshal_id_def addStub_def resolve_ref_def)

text \<open>
  The claim C5 as stated fails in four ways. The proxy 3 of \<open>collision_state\<close> has an
  id of \<open>_knownProxies\<close> that is a key of \<open>_knownStubIds\<close> too: the round trip gives
  the exported object 0. Object 1, a proxy of another Endpoint, has the id under which
  \<open>_knownProxies\<close> holds the proxy 3: the round trip gives the proxy 3. The exported
  object 2 has a \<open>$rpcId\<close> property: it is taken for a proxy, and marshalling throws.
  The proxy 3 of \<open>renamed_state\<close> is the one \<open>_knownProxies\<close> holds under 99, but
  its \<open>$rpcId\<close> is the closure of the announced method: marshalling throws.
\<close>

theorem round_trip_counterexample:
  "knownProxies collision_state 16777216 = Some 3 \<and>
   fst (marshalArgument collision_state (Prx 3)) = Inr (Ref 16777216) \<and>
   unmarshalArgument collision_state (Ref 16777216) = Inr (Obj 0) \<and>
   heap import_state 1 ''$rpcId'' = Num 99 \<and>
   knownProxies import_state 99 = Some 3 \<and>
   fst (marshalArgument import_state (Obj 1)) = Inr (Ref 99) \<and>
   unmarshalArgument import_state (Ref 99) = Inr (Prx 3) \<and>
   knownStubIds marked_export_state 16777216 = Some 2 \<and>
   fst (marshalArgument marked_export_state (Obj 2))
     = Inl (Error ''Invalid object 0x63, likely a proxy from a different socket'') \<and>
   knownProxies renamed_state 99 = Some 3 \<and>
   knownStubIds renamed_state 99 = None \<and>
   proxyObjs renamed_state 3 = Some \<lparr>pxId = 99, pxMethods = [''$rpcId'']\<rparr> \<and>
   (\<exists>m. fst (marshalArgument renamed_state (Prx 3)) = Inl (Error m))"
  by (simp add: collision_state_def import_state_def marked_export_state_def
      renamed_state_def example_states_simps example_state_def init_def
      mint_id_def js_shl_def addStub_def Let_def sendMetadata_def
      new_proxy_def rpcId_slot_def marshal_id_def js_string16_def resolve_ref_def
      num_to_string_def digits.simps digit_char_def)

subsection \<open>Inbound property access\<close>




lemma unmarshal_map_tasks [simp]: "unmarshal_map (s\<lparr>tasks := q\<rparr>) ps = unmarshal_map s ps"
  by (rule unmarshal_cong(2)) simp_all





text \<open>The example exchanges, one turn of the queue at a time.\<close>

lemma exported_state_tasks [simp]: "tasks exported_state = []"
  by (simp add: example_states_simps example_state_def init_def)







lemma exported_state_x [simp]: "heap exported_state 0 ''x'' = Num 5"
  by (simp add: example_states_simps example_state_def init_def)



subsection \<open>What the marshaller leaves alone\<close>

lemma addStub_new:
  assumes "knownStubs s a = None" "truthy (heap s a ''$rpcMethods'')"
  shows "addStub s a =
     (if stubCnt s \<ge> 16777216
      then (Inl (RangeError ''Too many stubs''), s\<lparr>stubCnt := stubCnt s + 1\<rparr>)
      else (Inr (mint_id (pid s) (stubCnt s)),
            sendMetadata
              (s\<lparr>stubCnt := stubCnt s + 1,
                 heap := (heap s)(a := make_free (heap s a) (mint_id (pid s) (stubCnt s))),
                 knownStubs := (knownStubs s)(a \<mapsto>
                    \<lparr>srpcId = mint_id (pid s) (stubCnt s), sobject = a,
                     smethods = heap s a ''$rpcMethods''\<rparr>),
                 knownStubIds := (knownStubIds s)(mint_id (pid s) (stubCnt s) \<mapsto> a)\<rparr>)
              \<lparr>srpcId = mint_id (pid s) (stubCnt s), sobject = a,
               smethods = heap s a ''$rpcMethods''\<rparr>))"
  using assms by (simp add: addStub_def Let_def js_shl_1_24)

lemma addStub_frame:
  assumes "addStub s a = (r, s')"
  shows "inCall s' = inCall s \<and> ended s' = ended s \<and> pid s' = pid s \<and>
     knownProxies s' = knownProxies s \<and> proxyObjs s' = proxyObjs s \<and>
     callId s' = callId s \<and> pendingCalls s' = pendingCalls s \<and>
     nextDeferred s' = nextDeferred s \<and> settled s' = settled s \<and>
     tasks s' = tasks s \<and> (\<forall>b. heap s' b ''$rpcId'' = heap s b ''$rpcId'')"
  using assms
  by (auto simp: addStub_def Let_def sendMetadata_def split: option.splits if_splits)

lemma marshal_frame:
  "marshalArgument s v = (r, s') \<Longrightarrow>
     inCall s' = inCall s \<and> ended s' = ended s \<and> pid s' = pid s \<and>
     knownProxies s' = knownProxies s \<and> proxyObjs s' = proxyObjs s \<and>
     callId s' = callId s \<and> pendingCalls s' = pendingCalls s \<and>
     nextDeferred s' = nextDeferred s \<and> settled s' = settled s \<and>
     tasks s' = tasks s \<and> (\<forall>b. heap s' b ''$rpcId'' = heap s b ''$rpcId'')"
  "marshal_map s vs = (rs, s') \<Longrightarrow>
     inCall s' = inCall s \<and> ended s' = ended s \<and> pid s' = pid s \<and>
     knownProxies s' = knownProxies s \<and> proxyObjs s' = proxyObjs s \<and>
     callId s' = callId s \<and> pendingCalls s' = pendingCalls s \<and>
     nextDeferred s' = nextDeferred s \<and> settled s' = settled s \<and>
     tasks s' = tasks s \<and> (\<forall>b. heap s' b ''$rpcId'' = heap s b ''$rpcId'')"
proof (induction s v and s vs arbitrary: r s' and rs s'
    rule: marshalArgument_marshal_map.induct)
  case (1 s vs)
  then show ?case by (auto split: prod.splits sum.splits)
next
  case (2 s a)
  obtain y u where m: "addStub s a = (y, u)" by (cases "addStub s a")
  show ?case
    using "2.prems" m addStub_frame [OF m]
    by (auto split: if_splits sum.splits)
next
  case (3 s p)
  then show ?case by (auto split: option.splits idslot.splits)
next
  case (7 s v vs)
  show ?case
  proof (cases "marshalArgument s v")
    case (Pair x t)
    note first = Pair
    show ?thesis
    proof (cases x)
      case (Inl e)
      then show ?thesis using "7.prems" first "7.IH"(1) [OF first] by auto
    next
      case (Inr w)
      obtain y u where rest: "marshal_map t vs = (y, u)" by (cases "marshal_map t vs")
      have "u = s'" using "7.prems" first Inr rest by (auto split: sum.splits)
      then show ?thesis
        using "7.IH"(1) [OF first] "7.IH"(2) [OF first [symmetric] Inr rest] by auto
    qed
  qed
qed auto

subsection \<open>Announcements queued by the marshaller\<close>

text \<open>
  While the guard is set, the marshaller writes nothing; what it appends to
  \<open>_newObjects\<close> are the announcements of the ids minted from the counter on, one
  for each key it adds to \<open>_knownStubIds\<close>.
\<close>

lemma minted_ids_0 [simp]: "minted_ids p c 0 = []"
  by (simp add: minted_ids_def)

lemma minted_ids_1 [simp]: "minted_ids p c (Suc 0) = [mint_id p c]"
  by (simp add: minted_ids_def)

lemma minted_ids_append:
  "minted_ids p c (n + m) = minted_ids p c n @ minted_ids p (c + int n) m"
  unfolding minted_ids_def by (induction m) (simp_all add: add.assoc)

lemma mint_id_inj: "mint_id p c = mint_id p d \<longleftrightarrow> c = d"
  by (simp add: mint_id_def)

lemma minted_ids_distinct: "distinct (minted_ids p c n)"
  by (simp add: minted_ids_def distinct_map inj_on_def mint_id_inj)

lemma trace_nil:
  "\<exists>anns. xs = xs @ anns \<and>
      map announced anns = map Some (minted_ids p c (length anns)) \<and>
      (P \<longrightarrow> int (length anns) = 0)"
  by (rule exI [of _ "[]"]) (simp add: minted_ids_def)

lemma trace_compose:
  assumes "newObjects t = newObjects s @ a1"
    and "map announced a1 = map Some (minted_ids p (stubCnt s) (length a1))"
    and "int (length a1) = stubCnt t - stubCnt s"
    and "newObjects u = newObjects t @ a2"
    and "map announced a2 = map Some (minted_ids p (stubCnt t) (length a2))"
  shows "newObjects u = newObjects s @ (a1 @ a2) \<and>
         map announced (a1 @ a2) = map Some (minted_ids p (stubCnt s) (length (a1 @ a2)))"
proof -
  have "stubCnt t = stubCnt s + int (length a1)" using assms(3) by simp
  then show ?thesis using assms by (simp add: minted_ids_append)
qed

lemma addStub_trace:
  assumes "inCall s" and "addStub s a = (r, s')"
  shows "written s' = written s \<and> stubCnt s \<le> stubCnt s' \<and>
     (\<exists>anns. newObjects s' = newObjects s @ anns \<and>
        map announced anns = map Some (minted_ids (pid s) (stubCnt s) (length anns)) \<and>
        ((\<exists>i. r = Inr i) \<longrightarrow> int (length anns) = stubCnt s' - stubCnt s))"
proof (cases "knownStubs s a")
  case (Some st)
  then have "s' = s" using assms(2) by (simp add: addStub_def)
  then show ?thesis by (simp add: trace_nil)
next
  case None
  note fresh = None
  show ?thesis
  proof (cases "truthy (heap s a ''$rpcMethods'')")
    case False
    then have "s' = s" using assms(2) fresh by (simp add: addStub_def)
    then show ?thesis by (simp add: trace_nil)
  next
    case True
    show ?thesis
    proof (cases "stubCnt s \<ge> 16777216")
      case True
      then have "s' = s\<lparr>stubCnt := stubCnt s + 1\<rparr>" "r = Inl (RangeError ''Too many stubs'')"
        using assms(2) by (simp_all add: addStub_new [OF fresh \<open>truthy (heap s a ''$rpcMethods'')\<close>])
      then show ?thesis by (simp add: trace_nil)
    next
      case False
      then have n: "newObjects s' = newObjects s @
           [NewObjectMsg (mint_id (pid s) (stubCnt s)) (heap s a ''$rpcMethods'')]"
        and w: "written s' = written s" and c: "stubCnt s' = stubCnt s + 1"
        using assms
        by (auto simp: addStub_new [OF fresh \<open>truthy (heap s a ''$rpcMethods'')\<close>]
            sendMetadata_def)
      show ?thesis
        using n w c
        by (intro conjI
            exI [of _ "[NewObjectMsg (mint_id (pid s) (stubCnt s)) (heap s a ''$rpcMethods'')]"])
           simp_all
    qed
  qed
qed

lemma marshal_trace:
  "inCall s \<Longrightarrow> marshalArgument s v = (r, s') \<Longrightarrow>
     written s' = written s \<and> stubCnt s \<le> stubCnt s' \<and>
     (\<exists>anns. newObjects s' = newObjects s @ anns \<and>
        map announced anns = map Some (minted_ids (pid s) (stubCnt s) (length anns)) \<and>
        ((\<exists>w. r = Inr w) \<longrightarrow> int (length anns) = stubCnt s' - stubCnt s))"
  "inCall s \<Longrightarrow> marshal_map s vs = (rs, s') \<Longrightarrow>
     written s' = written s \<and> stubCnt s \<le> stubCnt s' \<and>
     (\<exists>anns. newObjects s' = newObjects s @ anns \<and>
        map announced anns = map Some (minted_ids (pid s) (stubCnt s) (length anns)) \<and>
        ((\<exists>ws. rs = Inr ws) \<longrightarrow> int (length anns) = stubCnt s' - stubCnt s))"
proof (induction s v and s vs arbitrary: r s' and rs s'
    rule: marshalArgument_marshal_map.induct)
  case (1 s vs)
  obtain y u where m: "marshal_map s vs = (y, u)" by (cases "marshal_map s vs")
  have u: "u = s'" using "1.prems"(2) m by (auto split: sum.splits)
  have ok: "(\<exists>w. r = Inr w) \<longrightarrow> (\<exists>ws. y = Inr ws)"
    using "1.prems"(2) m by (auto split: sum.splits)
  show ?case using "1.IH" [OF "1.prems"(1) m] u ok by blast
next
  case (2 s a)
  show ?case
  proof (cases "heap s a ''$rpcId'' \<noteq> Undefined \<or> \<not> truthy (heap s a ''$rpcMethods'')")
    case True
    then have "s' = s" using "2.prems" by (auto split: if_splits)
    then show ?thesis by (simp add: trace_nil)
  next
    case False
    obtain y u where m: "addStub s a = (y, u)" by (cases "addStub s a")
    have u: "u = s'" using "2.prems"(2) m False by (auto split: sum.splits)
    have ok: "(\<exists>w. r = Inr w) \<longrightarrow> (\<exists>i. y = Inr i)"
      using "2.prems"(2) m False by (auto split: sum.splits)
    show ?thesis using addStub_trace [OF "2.prems"(1) m] u ok by blast
  qed
next
  case (3 s p)
  then have "s' = s" by (auto split: option.splits idslot.splits)
  then show ?case by (simp add: trace_nil)
next
  case (4 s i)
  then have "s' = s" by auto
  then show ?case by (simp add: trace_nil)
next
  case (6 s)
  then have "s' = s" by auto
  then show ?case by (simp add: trace_nil)
next
  case (7 s v vs)
  obtain x t where first: "marshalArgument s v = (x, t)" by (cases "marshalArgument s v")
  note ih1 = "7.IH"(1) [OF "7.prems"(1) first]
  show ?case
  proof (cases x)
    case (Inl e)
    then have "s' = t" "rs = Inl e" using "7.prems"(2) first by auto
    then show ?thesis using ih1 by blast
  next
    case (Inr w)
    obtain y u where rest: "marshal_map t vs = (y, u)" by (cases "marshal_map t vs")
    have u: "u = s'" using "7.prems"(2) first Inr rest by (auto split: sum.splits)
    have ok: "(\<exists>ws. rs = Inr ws) \<longrightarrow> (\<exists>ws. y = Inr ws)"
      using "7.prems"(2) first Inr rest by (auto split: sum.splits)
    have fr: "inCall t" "pid t = pid s"
      using marshal_frame(1) [OF first] "7.prems"(1) by auto
    note ih2 = "7.IH"(2) [OF first [symmetric] Inr fr(1) rest]
    from ih1 Inr obtain a1 where a1: "newObjects t = newObjects s @ a1"
      "map announced a1 = map Some (minted_ids (pid s) (stubCnt s) (length a1))"
      "int (length a1) = stubCnt t - stubCnt s" by blast
    from ih2 obtain a2 where a2: "newObjects u = newObjects t @ a2"
      "map announced a2 = map Some (minted_ids (pid s) (stubCnt t) (length a2))"
      "(\<exists>ws. y = Inr ws) \<longrightarrow> int (length a2) = stubCnt u - stubCnt t"
      unfolding fr(2) by blast
    have c: "newObjects u = newObjects s @ (a1 @ a2) \<and>
         map announced (a1 @ a2)
           = map Some (minted_ids (pid s) (stubCnt s) (length (a1 @ a2)))"
      by (rule trace_compose [OF a1 a2(1,2)])
    have len: "(\<exists>ws. rs = Inr ws) \<longrightarrow> int (length (a1 @ a2)) = stubCnt u - stubCnt s"
      using ok a1(3) a2(3) by auto
    have w: "written u = written s" "stubCnt s \<le> stubCnt u" using ih1 ih2 by auto
    show ?thesis using c len w u by blast
  qed
qed (simp_all add: trace_nil)

lemma exports_nil:
  "\<exists>anns. xs = xs @ anns \<and> K = K \<union> {i. \<exists>ms. NewObjectMsg i ms \<in> set anns}"
  by (rule exI [of _ "[]"]) simp

lemma addStub_exports:
  assumes "inCall s" and "addStub s a = (r, s')"
  shows "\<exists>anns. newObjects s' = newObjects s @ anns \<and>
     dom (knownStubIds s') = dom (knownStubIds s) \<union> {i. \<exists>ms. NewObjectMsg i ms \<in> set anns}"
proof (cases "knownStubs s a")
  case (Some st)
  then have "s' = s" using assms(2) by (simp add: addStub_def)
  then show ?thesis by (simp add: exports_nil)
next
  case None
  note fresh = None
  show ?thesis
  proof (cases "truthy (heap s a ''$rpcMethods'')")
    case False
    then have "s' = s" using assms(2) fresh by (simp add: addStub_def)
    then show ?thesis by (simp add: exports_nil)
  next
    case True
    note tr = True
    show ?thesis
    proof (cases "stubCnt s \<ge> 16777216")
      case True
      then have "s' = s\<lparr>stubCnt := stubCnt s + 1\<rparr>"
        using assms(2) by (simp_all add: addStub_new [OF fresh tr])
      then show ?thesis by (simp add: exports_nil)
    next
      case False
      then have n: "newObjects s' = newObjects s @
           [NewObjectMsg (mint_id (pid s) (stubCnt s)) (heap s a ''$rpcMethods'')]"
        and k: "knownStubIds s' = (knownStubIds s)(mint_id (pid s) (stubCnt s) \<mapsto> a)"
        using assms
        by (auto simp: addStub_new [OF fresh tr] sendMetadata_def)
      show ?thesis
        using n k
        by (intro
            exI [of _ "[NewObjectMsg (mint_id (pid s) (stubCnt s)) (heap s a ''$rpcMethods'')]"])
           auto
    qed
  qed
qed

lemma marshal_exports:
  "inCall s \<Longrightarrow> marshalArgument s v = (r, s') \<Longrightarrow>
     \<exists>anns. newObjects s' = newObjects s @ anns \<and>
       dom (knownStubIds s') = dom (knownStubIds s) \<union> {i. \<exists>ms. NewObjectMsg i ms \<in> set anns}"
  "inCall s \<Longrightarrow> marshal_map s vs = (rs, s') \<Longrightarrow>
     \<exists>anns. newObjects s' = newObjects s @ anns \<and>
       dom (knownStubIds s') = dom (knownStubIds s) \<union> {i. \<exists>ms. NewObjectMsg i ms \<in> set anns}"
proof (induction s v and s vs arbitrary: r s' and rs s'
    rule: marshalArgument_marshal_map.induct)
  case (1 s vs)
  obtain y u where m: "marshal_map s vs = (y, u)" by (cases "marshal_map s vs")
  have u: "u = s'" using "1.prems"(2) m by (auto split: sum.splits)
  show ?case using "1.IH" [OF "1.prems"(1) m] u by blast
next
  case (2 s a)
  show ?case
  proof (cases "heap s a ''$rpcId'' \<noteq> Undefined \<or> \<not> truthy (heap s a ''$rpcMethods'')")
    case True
    then have "s' = s" using "2.prems" by (auto split: if_splits)
    then show ?thesis by (simp add: exports_nil)
  next
    case False
    obtain y u where m: "addStub s a = (y, u)" by (cases "addStub s a")
    have u: "u = s'" using "2.prems"(2) m False by (auto split: sum.splits)
    show ?thesis using addStub_exports [OF "2.prems"(1) m] u by blast
  qed
next
  case (3 s p)
  then have "s' = s" by (auto split: option.splits idslot.splits)
  then show ?case by (simp add: exports_nil)
next
  case (4 s i)
  then have "s' = s" by auto
  then show ?case by (simp add: exports_nil)
next
  case (6 s)
  then have "s' = s" by auto
  then show ?case by (simp add: exports_nil)
next
  case (7 s v vs)
  obtain x t where first: "marshalArgument s v = (x, t)" by (cases "marshalArgument s v")
  note ih1 = "7.IH"(1) [OF "7.prems"(1) first]
  show ?case
  proof (cases x)
    case (Inl e)
    then have "s' = t" using "7.prems"(2) first by auto
    then show ?thesis using ih1 by blast
  next
    case (Inr w)
    obtain y u where rest: "marshal_map t vs = (y, u)" by (cases "marshal_map t vs")
    have u: "u = s'" using "7.prems"(2) first Inr rest by (auto split: sum.splits)
    have fr: "inCall t" using marshal_frame(1) [OF first] "7.prems"(1) by auto
    note ih2 = "7.IH"(2) [OF first [symmetric] Inr fr rest]
    from ih1 obtain a1 where a1: "newObjects t = newObjects s @ a1"
      "dom (knownStubIds t) = dom (knownStubIds s) \<union> {i. \<exists>ms. NewObjectMsg i ms \<in> set a1}"
      by blast
    from ih2 obtain a2 where a2: "newObjects u = newObjects t @ a2"
      "dom (knownStubIds u) = dom (knownStubIds t) \<union> {i. \<exists>ms. NewObjectMsg i ms \<in> set a2}"
      by blast
    have "newObjects u = newObjects s @ (a1 @ a2) \<and>
      dom (knownStubIds u)
        = dom (knownStubIds s) \<union> {i. \<exists>ms. NewObjectMsg i ms \<in> set (a1 @ a2)}"
      using a1 a2 by auto
    then show ?thesis unfolding u by blast
  qed
qed (simp_all add: exports_nil)

text \<open>The invariant \<open>queue_inv\<close> holds initially and is kept by every operation of
  the Endpoint; code of the host is assumed to act on the Endpoint through these
  operations only.\<close>

lemma queue_inv_init: "queue_inv (init p h n)"
  by (simp add: queue_inv_def init_def)

lemma queue_inv_addStub: "queue_inv s \<Longrightarrow> queue_inv (snd (addStub s a))"
  by (auto simp: queue_inv_def addStub_def Let_def sendMetadata_def split: option.splits)

lemma queue_inv_marshal:
  "queue_inv s \<Longrightarrow> queue_inv (snd (marshalArgument s v))"
  "queue_inv s \<Longrightarrow> queue_inv (snd (marshal_map s vs))"
proof (induction s v and s vs rule: marshalArgument_marshal_map.induct)
  case (1 s vs)
  then show ?case by (auto split: prod.splits sum.splits)
next
  case (2 s a)
  then show ?case
    using queue_inv_addStub [of s a] by (auto split: option.splits prod.splits sum.splits)
next
  case (3 s p)
  then show ?case by (auto split: option.splits idslot.splits)
next
  case (7 s v vs)
  obtain x t where first: "marshalArgument s v = (x, t)" by (cases "marshalArgument s v")
  have qt: "queue_inv t" using "7.IH"(1) [OF "7.prems"] first by simp
  show ?case
  proof (cases x)
    case (Inl e)
    then show ?thesis using first qt by simp
  next
    case (Inr w)
    from "7.IH"(2) [OF first [symmetric] Inr qt]
    show ?thesis using first Inr by (auto split: prod.splits sum.splits)
  qed
qed simp_all

lemma queue_inv_call: "queue_inv s \<Longrightarrow> queue_inv (snd (call s ob method args))"
proof -
  assume q: "queue_inv s"
  obtain x t where m: "marshal_map (s\<lparr>inCall := True\<rparr>) args = (x, t)"
    by (cases "marshal_map (s\<lparr>inCall := True\<rparr>) args")
  have "inCall t" using marshal_frame(2) [OF m] by simp
  then show ?thesis
    using q m by (cases x) (auto simp: call_def finish_call_def Let_def queue_inv_def)
qed

lemma queue_inv_callD:
  "call s ob mth args = (r, t) \<Longrightarrow> queue_inv s \<Longrightarrow> queue_inv t"
  using queue_inv_call [of s ob mth args] by simp

lemma queue_inv_run_fn: "queue_inv s \<Longrightarrow> queue_inv (run_fn f s)"
  by (induction f s rule: run_fn.induct)
     (auto simp: queue_inv_def Let_def split: option.splits)

lemma queue_inv_reply_error: "queue_inv s \<Longrightarrow> queue_inv (reply_error s i e)"
  by (auto simp: queue_inv_def reply_error_def split: mid.splits error.splits)

lemma queue_inv_reply_value: "queue_inv s \<Longrightarrow> queue_inv (reply_value s i v)"
proof -
  assume q: "queue_inv s"
  obtain x t where m: "marshalArgument s v = (x, t)" by (cases "marshalArgument s v")
  have qt: "queue_inv t" using queue_inv_marshal(1) [OF q, of v] m by simp
  show ?thesis
    using q m qt by (cases i; cases x) (auto simp: reply_value_def queue_inv_def)
qed

lemma queue_inv_handleReply:
  "queue_inv s \<Longrightarrow> queue_inv (handleReply s i reply err message fileName lineNumber)"
  by (auto simp: queue_inv_def handleReply_def Let_def split: mid.splits option.splits sum.splits)

lemma queue_inv_events:
  "queue_inv s \<Longrightarrow> queue_inv (on_error s err)"
  "queue_inv s \<Longrightarrow> queue_inv (on_end s)"
  "queue_inv s \<Longrightarrow> queue_inv (on_close s hadError)"
  by (simp_all add: queue_inv_def on_error_def on_end_def on_close_def failAllCalls_def Let_def)

lemma queue_inv_handleCall: "queue_inv s \<Longrightarrow> queue_inv (handleCall s i ob method params)"
  by (simp add: queue_inv_def handleCall_def)

lemma queue_inv_tasks: "queue_inv (s\<lparr>tasks := ts\<rparr>) = queue_inv s"
  by (simp add: queue_inv_def)

lemma queue_inv_call_body:
  assumes host: "\<And>t a m args. queue_inv t \<Longrightarrow> queue_inv (snd (invoke t a m args))"
    and q: "queue_inv s"
  shows "queue_inv (snd (call_body invoke s ob mth params))"
  using q host [OF q]
  by (auto simp: call_body_def stub_get_def stub_set_def stub_call_def queue_inv_def
        split: option.splits val.splits sum.splits)

lemma queue_inv_run_task:
  assumes host: "\<And>t a m args. queue_inv t \<Longrightarrow> queue_inv (snd (invoke t a m args))"
    and q: "queue_inv s"
  shows "queue_inv (run_task invoke s)"
proof (cases "tasks s")
  case Nil
  then show ?thesis using q by (simp add: run_task_def)
next
  case (Cons t rest)
  have q': "queue_inv (s\<lparr>tasks := rest\<rparr>)" using q by (simp add: queue_inv_tasks)
  show ?thesis
  proof (cases t)
    case (CallBody i ob mth params)
    obtain x u where b: "call_body invoke (s\<lparr>tasks := rest\<rparr>) ob mth params = (x, u)"
      by (cases "call_body invoke (s\<lparr>tasks := rest\<rparr>) ob mth params")
    have "queue_inv u" using queue_inv_call_body [where invoke = invoke and ob = ob and mth = mth
        and params = params, OF host q'] b by simp
    then show ?thesis
      using Cons CallBody b by (cases x) (simp_all add: run_task_def queue_inv_tasks)
  next
    case (ThenReply i v)
    then show ?thesis using Cons queue_inv_reply_value [OF q'] by (simp add: run_task_def)
  next
    case (CatchReply i e)
    then show ?thesis using Cons queue_inv_reply_error [OF q'] by (simp add: run_task_def)
  qed
qed

lemma queue_inv_proxy_set: "queue_inv s \<Longrightarrow> queue_inv (snd (proxy_set s i ms name v))"
  by (auto simp: proxy_set_def split: sockslot.splits idslot.splits prod.splits
      call_result.splits dest: queue_inv_callD)

lemma queue_inv_construct:
  "queue_inv s \<Longrightarrow> queue_inv (snd (construct s i declared ms))"
proof (induction s i declared ms rule: construct.induct)
  case (1 s i declared)
  then show ?case by simp
next
  case (2 s i declared m ms)
  obtain x t where p: "proxy_set s i declared m (Fn (ProxyMethod m)) = (x, t)"
    by (cases "proxy_set s i declared m (Fn (ProxyMethod m))")
  have qt: "queue_inv t" using queue_inv_proxy_set [OF "2.prems", of i declared m "Fn (ProxyMethod m)"] p by simp
  show ?case
  proof (cases "take 4 m = ''get ''")
    case True
    then show ?thesis using "2.IH"(1) "2.prems" by simp
  next
    case False
    note ng = False
    show ?thesis
    proof (cases "(''get '' @ m) \<in> set declared")
      case False
      then show ?thesis using "2.IH"(3) "2.prems" ng by simp
    next
      case True
      show ?thesis
      proof (cases x)
        case None
        then show ?thesis using "2.IH"(2) [OF ng True p [symmetric] None qt] ng True p
          by simp
      next
        case (Some e)
        then show ?thesis using ng True p qt by simp
      qed
    qed
  qed
qed

lemma queue_inv_new_proxy: "queue_inv s \<Longrightarrow> queue_inv (snd (new_proxy s i ms))"
proof -
  assume q: "queue_inv s"
  obtain x t where c: "construct s i [] ms = (x, t)" by (cases "construct s i [] ms")
  have qt: "queue_inv t" using queue_inv_construct [OF q, of i "[]" ms] c by simp
  then have q2: "queue_inv (t\<lparr>proxyObjs := (proxyObjs t)(nextAddr t \<mapsto> \<lparr>pxId = i, pxMethods = ms\<rparr>),
                       nextAddr := Suc (nextAddr t),
                       knownProxies := (knownProxies t)(i \<mapsto> nextAddr t)\<rparr>)"
    by (simp add: queue_inv_def)
  show ?thesis
    using c qt q2 queue_inv_proxy_set [OF q2]
    by (cases x) (simp_all add: new_proxy_def Let_def)
qed

lemma queue_inv_handleMessage: "queue_inv s \<Longrightarrow> queue_inv (snd (handleMessage s msg))"
proof (cases msg)
  case (InNewObject i ms)
  assume "queue_inv s"
  then show ?thesis using InNewObject queue_inv_new_proxy [of s i ms] by simp
next
  case (InCall i ob mth params)
  assume "queue_inv s"
  then show ?thesis using InCall queue_inv_handleCall [of s] by simp
next
  case (InReply i reply err message fileName lineNumber)
  assume "queue_inv s"
  then show ?thesis using InReply queue_inv_handleReply [of s] by simp
next
  case InOther
  assume "queue_inv s"
  then show ?thesis using InOther by simp
qed

text \<open>Marshalling in the example world.\<close>

lemma example_state_flags [simp]:
  "\<not> inCall example_state" "\<not> ended example_state" "newObjects example_state = []"
  "written example_state = []" "pendingCalls example_state = []"
  "callId example_state = 0" "nextDeferred example_state = 0" "stubCnt example_state = 0"
  "pid example_state = 1" "tasks example_state = []"
  by (simp_all add: example_state_def init_def)

lemma exported_state_fields [simp]:
  "pendingCalls exported_state = []" "callId exported_state = 0"
  "nextDeferred exported_state = 0" "stubCnt exported_state = 1"
  by (simp_all add: example_states_simps)



lemma example_marshal_foreign:
  "marshal_map (example_state\<lparr>inCall := True\<rparr>) [Obj 1] =
     (Inl (Error ''Invalid object 0x63, likely a proxy from a different socket''),
      example_state\<lparr>inCall := True\<rparr>)"
  by (simp add: example_state_def init_def marshal_id_def num_to_string_def
      digits.simps digit_char_def)

lemma example_marshal_two:
  "fst (marshal_map (example_state\<lparr>inCall := True\<rparr>) [Obj 0, Arr [Obj 2, Obj 0]])
     = Inr [Ref 16777216, Arr [Ref 16777217, Ref 16777216]]"
  "newObjects (snd (marshal_map (example_state\<lparr>inCall := True\<rparr>) [Obj 0, Arr [Obj 2, Obj 0]]))
     = [NewObjectMsg 16777216 (Arr [Str ''ping'', Str ''get x'']),
        NewObjectMsg 16777217 (Arr [Str ''pong''])]"
  "stubCnt (snd (marshal_map (example_state\<lparr>inCall := True\<rparr>) [Obj 0, Arr [Obj 2, Obj 0]])) = 2"
  "dom (knownStubIds
     (snd (marshal_map (example_state\<lparr>inCall := True\<rparr>) [Obj 0, Arr [Obj 2, Obj 0]])))
     = {16777217, 16777216}"
  by (simp_all add: example_state_def init_def addStub_def Let_def
      sendMetadata_def mint_id_def js_shl_def make_free_def)

subsection \<open>Re-entrant calls\<close>






subsection \<open>How call() fails\<close>

lemma foreign_cong:
  assumes "knownProxies t = knownProxies s" "proxyObjs t = proxyObjs s"
    "\<And>b. heap t b ''$rpcId'' = heap s b ''$rpcId''"
  shows "foreign_ref t v = foreign_ref s v" and "foreign_ref_list t vs = foreign_ref_list s vs"
  using assms
  by (induction s v and s vs rule: foreign_ref_foreign_ref_list.induct)
     (simp_all split: option.splits val.splits idslot.splits)

lemma foreign_marshal_fails:
  "foreign_ref s v \<Longrightarrow> \<exists>e. fst (marshalArgument s v) = Inl e"
  "foreign_ref_list s vs \<Longrightarrow> \<exists>e. fst (marshal_map s vs) = Inl e"
proof (induction s v and s vs rule: marshalArgument_marshal_map.induct)
  case (1 s vs)
  then show ?case by (auto split: prod.splits sum.splits)
next
  case (2 s a)
  then show ?case
    by (cases "heap s a ''$rpcId''") (auto simp: marshal_id_def)
next
  case (3 s p)
  then show ?case
    by (auto simp: marshal_id_def stack_overflow_def split: option.splits idslot.splits)
next
  case (4 s i)
  then show ?case by (simp add: marshal_id_def)
next
  case (7 s v vs)
  obtain x t where first: "marshalArgument s v = (x, t)" by (cases "marshalArgument s v")
  show ?case
  proof (cases x)
    case (Inl e)
    then show ?thesis using first by simp
  next
    case (Inr w)
    have nf: "\<not> foreign_ref s v" using "7.IH"(1) first Inr by auto
    have "foreign_ref_list t vs = foreign_ref_list s vs"
      using marshal_frame(1) [OF first] by (intro foreign_cong(2)) auto
    then have "foreign_ref_list t vs" using "7.prems" nf by simp
    from "7.IH"(2) [OF first [symmetric] Inr this]
    show ?thesis using first Inr by (auto split: prod.splits sum.splits)
  qed
qed simp_all

lemma call_throw_keeps_guard:
  assumes "\<not> inCall s" and "\<not> ended s"
    and "fst (marshal_map (s\<lparr>inCall := True\<rparr>) args) = Inl e"
  shows "call s ob method args = (Thrown e, snd (marshal_map (s\<lparr>inCall := True\<rparr>) args)) \<and>
         inCall (snd (call s ob method args))"
proof -
  obtain x t where m: "marshal_map (s\<lparr>inCall := True\<rparr>) args = (x, t)"
    by (cases "marshal_map (s\<lparr>inCall := True\<rparr>) args")
  have "inCall t" using marshal_frame(2) [OF m] by simp
  then show ?thesis using assms m by (simp add: call_def finish_call_def)
qed

text \<open>
  C2, as amended. With the guard clear, \<open>call()\<close> throws exactly when the channel is
  open and the marshalling of the arguments throws, and it throws that exception; an
  argument with a reference to a proxy of another Endpoint is such a case. It returns
  a rejected promise exactly when the channel is closed: the error is
  \<open>Socket closed\<close>, and the Endpoint is unchanged. With the guard set, \<open>call()\<close>
  throws the re-entrancy error, whether the channel is open or closed.
\<close>

theorem call_failure_modes:
  "(\<not> inCall s \<longrightarrow>
      ((\<exists>e. fst (call s ob mth args) = Thrown e) \<longleftrightarrow>
         \<not> ended s \<and> (\<exists>e. fst (marshal_map (s\<lparr>inCall := True\<rparr>) args) = Inl e)) \<and>
      ((\<exists>e. fst (call s ob mth args) = Returned (RejectedPromise e)) \<longleftrightarrow> ended s)) \<and>
   (\<not> inCall s \<and> \<not> ended s \<and> fst (marshal_map (s\<lparr>inCall := True\<rparr>) args) = Inl e \<longrightarrow>
      fst (call s ob mth args) = Thrown e) \<and>
   (\<not> inCall s \<and> ended s \<longrightarrow>
      call s ob mth args = (Returned (RejectedPromise (Error ''Socket closed'')), s)) \<and>
   (\<not> inCall s \<and> \<not> ended s \<and> foreign_ref_list s args \<longrightarrow>
      (\<exists>e. fst (call s ob mth args) = Thrown e)) \<and>
   (inCall s \<longrightarrow>
      call s ob mth args = (Thrown (Error ''Re-entrant calls are not supported''), s))"
proof -
  obtain x t where m: "marshal_map (s\<lparr>inCall := True\<rparr>) args = (x, t)"
    by (cases "marshal_map (s\<lparr>inCall := True\<rparr>) args")
  have f: "foreign_ref_list s args \<Longrightarrow> \<exists>e. x = Inl e"
  proof -
    assume a: "foreign_ref_list s args"
    have "foreign_ref_list (s\<lparr>inCall := True\<rparr>) args = foreign_ref_list s args"
      by (rule foreign_cong(2)) simp_all
    then show ?thesis using foreign_marshal_fails(2) [of "s\<lparr>inCall := True\<rparr>" args] a m
      by simp
  qed
  show ?thesis
    using m f by (cases x) (auto simp: call_def finish_call_def Let_def)
qed

theorem call_failure_modes_witness:
  "\<not> inCall example_state \<and> \<not> ended example_state \<and>
   foreign_ref_list example_state [Obj 1] \<and>
   fst (marshal_map (example_state\<lparr>inCall := True\<rparr>) [Obj 1])
     = Inl (Error ''Invalid object 0x63, likely a proxy from a different socket'') \<and>
   fst (call example_state (Num 5) ''ping'' [Obj 1])
     = Thrown (Error ''Invalid object 0x63, likely a proxy from a different socket'') \<and>
   ended (example_state\<lparr>ended := True\<rparr>) \<and>
   call (example_state\<lparr>ended := True\<rparr>) (Num 5) ''ping'' [Obj 1]
     = (Returned (RejectedPromise (Error ''Socket closed'')), example_state\<lparr>ended := True\<rparr>) \<and>
   inCall (example_state\<lparr>inCall := True, ended := True\<rparr>) \<and>
   call (example_state\<lparr>inCall := True, ended := True\<rparr>) (Num 5) ''ping'' []
     = (Thrown (Error ''Re-entrant calls are not supported''),
        example_state\<lparr>inCall := True, ended := True\<rparr>)"
  using call_failure_modes [where s = example_state and ob = "Num 5" and mth = "''ping''"
      and args = "[Obj 1]"
      and e = "Error ''Invalid object 0x63, likely a proxy from a different socket''"]
    call_failure_modes [where s = "example_state\<lparr>ended := True\<rparr>" and ob = "Num 5"
      and mth = "''ping''" and args = "[Obj 1]"]
    call_failure_modes [where s = "example_state\<lparr>inCall := True, ended := True\<rparr>"
      and ob = "Num 5" and mth = "''ping''" and args = "[]"]
    example_marshal_foreign
  by (simp del: marshalArgument.simps marshal_map.simps)
     (simp add: example_state_def init_def)

text \<open>
  The claim C2 as stated fails: forwarding object 1, a proxy of another Endpoint, makes
  \<open>call()\<close> throw. The guard is still set afterwards, nothing in \<open>call()\<close>
  clearing it on that path: the next \<open>call()\<close> throws the re-entrancy error, and it
  still throws, instead of returning a rejected promise, once the channel has closed.
\<close>

theorem call_throws_synchronously:
  "fst (call example_state (Num 5) ''ping'' [Obj 1])
     = Thrown (Error ''Invalid object 0x63, likely a proxy from a different socket'') \<and>
   inCall (snd (call example_state (Num 5) ''ping'' [Obj 1])) \<and>
   fst (call (snd (call example_state (Num 5) ''ping'' [Obj 1])) (Num 5) ''ping'' [])
     = Thrown (Error ''Re-entrant calls are not supported'') \<and>
   fst (call (on_close (snd (call example_state (Num 5) ''ping'' [Obj 1])) False)
          (Num 5) ''ping'' [])
     = Thrown (Error ''Re-entrant calls are not supported'')"
proof -
  have c: "call example_state (Num 5) ''ping'' [Obj 1] =
     (Thrown (Error ''Invalid object 0x63, likely a proxy from a different socket''),
      example_state\<lparr>inCall := True\<rparr>)"
    using example_marshal_foreign
    by (simp add: call_def finish_call_def del: marshalArgument.simps marshal_map.simps)
  show ?thesis unfolding c by (simp add: call_def on_close_def)
qed

subsection \<open>Order of the announcements and the call message\<close>

text \<open>
  C6, as amended. Take a \<open>call()\<close> made with the guard clear on an open channel,
  the queue being empty as \<open>queue_inv\<close> says. The marshalling of its arguments writes
  nothing; the announcements it queues carry the ids minted from the old value of the
  counter on, in that order, and these ids are the keys it adds to \<open>_knownStubIds\<close>.
  When the marshalling completes, their number is the growth of the counter, and
  \<open>call()\<close> writes exactly these announcements, in that order, and then the one
  call message. When the marshalling throws, \<open>call()\<close> throws and writes nothing:
  the announcements stay in the queue and the guard stays set, so that any later
  \<open>call()\<close> throws without writing.
\<close>

theorem call_announces_exports:
  assumes q: "queue_inv s" and g: "\<not> inCall s" and o: "\<not> ended s"
    and m: "marshal_map (s\<lparr>inCall := True\<rparr>) args = (r, s1)"
  shows "written s1 = written s \<and>
     map announced (newObjects s1)
       = map Some (minted_ids (pid s) (stubCnt s) (length (newObjects s1))) \<and>
     dom (knownStubIds s1)
       = dom (knownStubIds s) \<union> {i. \<exists>ms. NewObjectMsg i ms \<in> set (newObjects s1)} \<and>
     (\<forall>ws. r = Inr ws \<longrightarrow>
        int (length (newObjects s1)) = stubCnt s1 - stubCnt s \<and>
        call s ob mth args =
          (Returned (DeferredPromise (nextDeferred s)),
           s1\<lparr>written := written s @ newObjects s1 @ [CallMsg (callId s) ob mth ws],
              newObjects := [], inCall := False, callId := callId s + 1,
              nextDeferred := Suc (nextDeferred s),
              pendingCalls := AList.update (callId s) (nextDeferred s) (pendingCalls s)\<rparr>)) \<and>
     (\<forall>e. r = Inl e \<longrightarrow>
        call s ob mth args = (Thrown e, s1) \<and> inCall s1 \<and>
        call s1 ob' mth' args' = (Thrown (Error ''Re-entrant calls are not supported''), s1))"
proof -
  have e: "newObjects s = []" using q g by (simp add: queue_inv_def)
  have i: "inCall (s\<lparr>inCall := True\<rparr>)" by simp
  from marshal_trace(2) [OF i m] obtain anns where
    t: "written s1 = written s" "newObjects s1 = newObjects (s\<lparr>inCall := True\<rparr>) @ anns"
       "map announced anns = map Some (minted_ids (pid s) (stubCnt s) (length anns))"
       "(\<exists>ws. r = Inr ws) \<longrightarrow> int (length anns) = stubCnt s1 - stubCnt s" by auto
  from marshal_exports(2) [OF i m] obtain bs where
    b: "newObjects s1 = newObjects (s\<lparr>inCall := True\<rparr>) @ bs"
       "dom (knownStubIds s1)
          = dom (knownStubIds (s\<lparr>inCall := True\<rparr>)) \<union> {i. \<exists>ms. NewObjectMsg i ms \<in> set bs}"
    by blast
  have n: "newObjects s1 = anns" "bs = anns" using t(2) b(1) e by simp_all
  have f: "callId s1 = callId s" "nextDeferred s1 = nextDeferred s"
    "pendingCalls s1 = pendingCalls s" "inCall s1"
    using marshal_frame(2) [OF m] by simp_all
  have c1: "\<forall>ws. r = Inr ws \<longrightarrow> call s ob mth args =
          (Returned (DeferredPromise (nextDeferred s)),
           s1\<lparr>written := written s @ newObjects s1 @ [CallMsg (callId s) ob mth ws],
              newObjects := [], inCall := False, callId := callId s + 1,
              nextDeferred := Suc (nextDeferred s),
              pendingCalls := AList.update (callId s) (nextDeferred s) (pendingCalls s)\<rparr>)"
    using g o m f t(1) by (simp add: call_def finish_call_def Let_def)
  have c2: "\<forall>e. r = Inl e \<longrightarrow> call s ob mth args = (Thrown e, s1)"
    using g o m by (simp add: call_def finish_call_def)
  have c3: "call s1 ob' mth' args' = (Thrown (Error ''Re-entrant calls are not supported''), s1)"
    using f(4) by (simp add: call_def)
  show ?thesis using t(1,3,4) b(2) n c1 c2 c3 f(4) by simp
qed

theorem call_announces_exports_witness:
  "queue_inv example_state \<and> \<not> inCall example_state \<and> \<not> ended example_state \<and>
   fst (marshal_map (example_state\<lparr>inCall := True\<rparr>) [Obj 0, Arr [Obj 2, Obj 0]])
     = Inr [Ref 16777216, Arr [Ref 16777217, Ref 16777216]] \<and>
   fst (call example_state (Num 5) ''ping'' [Obj 0, Arr [Obj 2, Obj 0]])
     = Returned (DeferredPromise 0) \<and>
   written (snd (call example_state (Num 5) ''ping'' [Obj 0, Arr [Obj 2, Obj 0]]))
     = [NewObjectMsg 16777216 (Arr [Str ''ping'', Str ''get x'']),
        NewObjectMsg 16777217 (Arr [Str ''pong'']),
        CallMsg 0 (Num 5) ''ping'' [Ref 16777216, Arr [Ref 16777217, Ref 16777216]]] \<and>
   stubCnt (snd (call example_state (Num 5) ''ping'' [Obj 0, Arr [Obj 2, Obj 0]])) = 2 \<and>
   dom (knownStubIds (snd (call example_state (Num 5) ''ping'' [Obj 0, Arr [Obj 2, Obj 0]])))
     = {16777217, 16777216} \<and>
   newObjects (snd (call example_state (Num 5) ''ping'' [Obj 0, Arr [Obj 2, Obj 0]])) = [] \<and>
   \<not> inCall (snd (call example_state (Num 5) ''ping'' [Obj 0, Arr [Obj 2, Obj 0]])) \<and>
   pendingCalls (snd (call example_state (Num 5) ''ping'' [Obj 0, Arr [Obj 2, Obj 0]]))
     = [(0, 0)] \<and>
   fst (marshal_map (example_state\<lparr>inCall := True\<rparr>) [Obj 1])
     = Inl (Error ''Invalid object 0x63, likely a proxy from a different socket'') \<and>
   call example_state (Num 5) ''ping'' [Obj 1]
     = (Thrown (Error ''Invalid object 0x63, likely a proxy from a different socket''),
        example_state\<lparr>inCall := True\<rparr>)"
proof -
  have hyp: "queue_inv example_state \<and> \<not> inCall example_state \<and> \<not> ended example_state"
    by (simp add: queue_inv_def)
  have m: "marshal_map (example_state\<lparr>inCall := True\<rparr>) [Obj 0, Arr [Obj 2, Obj 0]]
    = (Inr [Ref 16777216, Arr [Ref 16777217, Ref 16777216]],
       snd (marshal_map (example_state\<lparr>inCall := True\<rparr>) [Obj 0, Arr [Obj 2, Obj 0]]))"
    using example_marshal_two(1) by (simp add: prod_eq_iff del: marshal_map.simps)
  from call_announces_exports
    [where s = example_state and ob = "Num 5" and mth = "''ping''"
       and args = "[Obj 0, Arr [Obj 2, Obj 0]]"
       and r = "Inr [Ref 16777216, Arr [Ref 16777217, Ref 16777216]]", OF _ _ _ m]
    hyp
  have r: "call example_state (Num 5) ''ping'' [Obj 0, Arr [Obj 2, Obj 0]] =
    (Returned (DeferredPromise 0),
     (snd (marshal_map (example_state\<lparr>inCall := True\<rparr>) [Obj 0, Arr [Obj 2, Obj 0]]))
       \<lparr>written := [] @
          newObjects (snd (marshal_map (example_state\<lparr>inCall := True\<rparr>)
            [Obj 0, Arr [Obj 2, Obj 0]])) @
          [CallMsg 0 (Num 5) ''ping'' [Ref 16777216, Arr [Ref 16777217, Ref 16777216]]],
        newObjects := [], inCall := False, callId := 0 + 1, nextDeferred := Suc 0,
        pendingCalls := AList.update 0 0 []\<rparr>)"
    by (simp del: marshalArgument.simps marshal_map.simps)
  from call_announces_exports
    [where s = example_state and ob = "Num 5" and mth = "''ping''" and args = "[Obj 1]"
       and r = "Inl (Error ''Invalid object 0x63, likely a proxy from a different socket'')",
     OF _ _ _ example_marshal_foreign]
    hyp
  have t: "call example_state (Num 5) ''ping'' [Obj 1]
     = (Thrown (Error ''Invalid object 0x63, likely a proxy from a different socket''),
        example_state\<lparr>inCall := True\<rparr>)"
    by (simp del: marshalArgument.simps marshal_map.simps)
  show ?thesis
    unfolding r t using hyp example_marshal_two example_marshal_foreign
    by (simp del: marshalArgument.simps marshal_map.simps)
qed

text \<open>
  The claim C6 as stated fails for a \<open>call()\<close> whose marshalling exports an object
  and then throws: object 0 is exported under the id 16777216, object 1 is refused,
  and the announcement of object 0 is not written, neither then nor by a later
  \<open>call()\<close>.
\<close>

theorem throw_leaves_export_unannounced:
  "fst (call example_state (Num 5) ''ping'' [Obj 0, Obj 1])
     = Thrown (Error ''Invalid object 0x63, likely a proxy from a different socket'') \<and>
   knownStubIds (snd (call example_state (Num 5) ''ping'' [Obj 0, Obj 1])) 16777216 = Some 0 \<and>
   stubCnt (snd (call example_state (Num 5) ''ping'' [Obj 0, Obj 1])) = 1 \<and>
   written (snd (call example_state (Num 5) ''ping'' [Obj 0, Obj 1])) = [] \<and>
   newObjects (snd (call example_state (Num 5) ''ping'' [Obj 0, Obj 1]))
     = [NewObjectMsg 16777216 (Arr [Str ''ping'', Str ''get x''])] \<and>
   inCall (snd (call example_state (Num 5) ''ping'' [Obj 0, Obj 1])) \<and>
   call (snd (call example_state (Num 5) ''ping'' [Obj 0, Obj 1])) (Num 5) ''ping'' []
     = (Thrown (Error ''Re-entrant calls are not supported''),
        snd (call example_state (Num 5) ''ping'' [Obj 0, Obj 1]))"
proof -
  have m: "marshal_map (example_state\<lparr>inCall := True\<rparr>) [Obj 0, Obj 1] =
     (Inl (Error ''Invalid object 0x63, likely a proxy from a different socket''),
      exported_state\<lparr>inCall := True, written := [],
        newObjects := [NewObjectMsg 16777216 (Arr [Str ''ping'', Str ''get x''])]\<rparr>)"
    by (simp add: example_states_simps example_state_def init_def addStub_def Let_def
      sendMetadata_def mint_id_def js_shl_def marshal_id_def num_to_string_def
      digits.simps digit_char_def)
  have c: "call example_state (Num 5) ''ping'' [Obj 0, Obj 1] =
     (Thrown (Error ''Invalid object 0x63, likely a proxy from a different socket''),
      exported_state\<lparr>inCall := True, written := [],
        newObjects := [NewObjectMsg 16777216 (Arr [Str ''ping'', Str ''get x''])]\<rparr>)"
    using m by (simp add: call_def finish_call_def del: marshalArgument.simps marshal_map.simps)
  show ?thesis
    unfolding c by (simp add: call_def example_states_simps)
qed

end
